theory Spec2Isabelle
  imports Complex_Main "HOL-Library.Char_ord" "HOL-Library.List_Lexorder"
begin

section \<open>Numbers\<close>

text \<open>
  A Python \<^verbatim>\<open>float\<close>. \<open>Fin q\<close> stands for the finite binary64 number
  nearest to the rational \<open>q\<close>; the rounding of finite values to 53 bits is not
  modelled, so arithmetic on finite values is exact. The three special values and the
  way comparisons and arithmetic treat them are modelled as IEEE 754 has them.
\<close>

datatype pyfloat = Fin rat | PosInf | NegInf | NaN

fun isnan :: "pyfloat \<Rightarrow> bool" where
  "isnan NaN = True"
| "isnan _ = False"

fun isfinite :: "pyfloat \<Rightarrow> bool" where
  "isfinite (Fin q) = True"
| "isfinite _ = False"

text \<open>\<open>flt a b\<close> is \<^verbatim>\<open>a < b\<close>, \<open>fle a b\<close> is \<^verbatim>\<open>a <= b\<close>; both are false when an operand is NaN.\<close>

fun flt :: "pyfloat \<Rightarrow> pyfloat \<Rightarrow> bool" where
  "flt NaN b = False"
| "flt a NaN = False"
| "flt (Fin a) (Fin b) = (a < b)"
| "flt (Fin a) PosInf = True"
| "flt (Fin a) NegInf = False"
| "flt PosInf b = False"
| "flt NegInf NegInf = False"
| "flt NegInf b = True"

fun fle :: "pyfloat \<Rightarrow> pyfloat \<Rightarrow> bool" where
  "fle NaN b = False"
| "fle a NaN = False"
| "fle (Fin a) (Fin b) = (a \<le> b)"
| "fle (Fin a) PosInf = True"
| "fle (Fin a) NegInf = False"
| "fle PosInf PosInf = True"
| "fle PosInf b = False"
| "fle NegInf b = True"

definition fgt :: "pyfloat \<Rightarrow> pyfloat \<Rightarrow> bool" where
  "fgt a b = flt b a"

fun fadd :: "pyfloat \<Rightarrow> pyfloat \<Rightarrow> pyfloat" where
  "fadd NaN b = NaN"
| "fadd a NaN = NaN"
| "fadd (Fin a) (Fin b) = Fin (a + b)"
| "fadd (Fin a) b = b"
| "fadd PosInf NegInf = NaN"
| "fadd NegInf PosInf = NaN"
| "fadd a b = a"

fun fneg :: "pyfloat \<Rightarrow> pyfloat" where
  "fneg (Fin a) = Fin (- a)"
| "fneg PosInf = NegInf"
| "fneg NegInf = PosInf"
| "fneg NaN = NaN"

definition fsub :: "pyfloat \<Rightarrow> pyfloat \<Rightarrow> pyfloat" where
  "fsub a b = fadd a (fneg b)"

text \<open>Division of a float by a positive count, as \<^verbatim>\<open>mean\<close> does.\<close>

fun fdiv_count :: "pyfloat \<Rightarrow> nat \<Rightarrow> pyfloat" where
  "fdiv_count (Fin a) n = Fin (a / of_nat n)"
| "fdiv_count a n = a"

text \<open>
  The largest finite binary64 number is \<open>2^1024 - 2^971\<close>; a decimal literal whose
  magnitude reaches \<open>2^1024 - 2^970\<close> rounds to an infinity, and
  \<^verbatim>\<open>float\<close> returns it without raising.
\<close>

definition overflow_threshold :: rat where
  "overflow_threshold = 2 ^ 1024 - 2 ^ 970"

definition to_double :: "rat \<Rightarrow> pyfloat" where
  "to_double q =
     (if overflow_threshold \<le> \<bar>q\<bar> then (if 0 < q then PosInf else NegInf) else Fin q)"

text \<open>Python's \<^verbatim>\<open>round(x)\<close> on a finite value: to the nearest integer, ties to even.\<close>

definition round_half_even :: "rat \<Rightarrow> int" where
  "round_half_even q =
     (let f = \<lfloor>q\<rfloor>; d = q - of_int f
      in if d < 1 / 2 then f else if 1 / 2 < d then f + 1 else if even f then f else f + 1)"

section \<open>Text\<close>

text \<open>
  A Python \<^verbatim>\<open>str\<close> is modelled as a list of code points below 256.
  \<open>py_isspace\<close> is \<^verbatim>\<open>str.isspace\<close> on one such code point, the set
  \<^verbatim>\<open>str.strip()\<close> removes.
\<close>

definition py_isspace :: "char \<Rightarrow> bool" where
  "py_isspace c = ((of_char c :: nat) \<in> {9, 10, 11, 12, 13, 28, 29, 30, 31, 32, 133, 160})"

definition py_strip :: "string \<Rightarrow> string" where
  "py_strip s = rev (dropWhile py_isspace (rev (dropWhile py_isspace s)))"

definition startswith :: "string \<Rightarrow> string \<Rightarrow> bool" where
  "startswith text p = (take (length p) text = p)"

definition lower_char :: "char \<Rightarrow> char" where
  "lower_char c =
     (let n = (of_char c :: nat)
      in if (65 \<le> n \<and> n \<le> 90) \<or> (192 \<le> n \<and> n \<le> 222 \<and> n \<noteq> 215)
         then char_of (n + 32) else c)"

definition py_lower :: "string \<Rightarrow> string" where
  "py_lower s = map lower_char s"

definition is_digit :: "char \<Rightarrow> bool" where
  "is_digit c = (48 \<le> (of_char c :: nat) \<and> (of_char c :: nat) \<le> 57)"

definition digit_val :: "char \<Rightarrow> nat" where
  "digit_val c = of_char c - 48"

text \<open>The value of a run of decimal digits, most significant first.\<close>

definition digits_val :: "string \<Rightarrow> nat" where
  "digits_val ds = foldl (\<lambda>acc c. 10 * acc + digit_val c) 0 ds"

subsection \<open>\<^verbatim>\<open>float(str)\<close>\<close>

text \<open>
  \<^verbatim>\<open>float\<close> on a string (CPython): an underscore is allowed only between two
  digits, and underscores are removed first; surrounding white space is skipped; what is
  left is an optional sign followed by \<^verbatim>\<open>inf\<close>, \<^verbatim>\<open>infinity\<close> or
  \<^verbatim>\<open>nan\<close> in any letter case, or by a decimal number with an optional exponent.
  \<open>None\<close> is the \<^verbatim>\<open>ValueError\<close>.
\<close>

fun strip_underscores :: "char \<Rightarrow> string \<Rightarrow> string option" where
  "strip_underscores prev [] = (if prev = CHR ''_'' then None else Some [])"
| "strip_underscores prev (c # cs) =
     (if c = CHR ''_'' then (if is_digit prev then strip_underscores c cs else None)
      else if prev = CHR ''_'' \<and> \<not> is_digit c then None
      else map_option ((#) c) (strip_underscores c cs))"

definition float_isspace :: "char \<Rightarrow> bool" where
  "float_isspace c = ((of_char c :: nat) \<in> {9, 10, 11, 12, 13, 32, 133, 160})"

definition float_strip :: "string \<Rightarrow> string" where
  "float_strip s = rev (dropWhile float_isspace (rev (dropWhile float_isspace s)))"

definition ascii_lower :: "char \<Rightarrow> char" where
  "ascii_lower c =
     (let n = (of_char c :: nat) in if 65 \<le> n \<and> n \<le> 90 then char_of (n + 32) else c)"

text \<open>The sign of a literal: whether it is negative, and the rest.\<close>

fun split_sign :: "string \<Rightarrow> bool \<times> string" where
  "split_sign [] = (False, [])"
| "split_sign (c # cs) =
     (if c = CHR ''-'' then (True, cs) else if c = CHR ''+'' then (False, cs) else (False, c # cs))"

definition parse_inf_or_nan :: "string \<Rightarrow> pyfloat option" where
  "parse_inf_or_nan s =
     (let (neg, r) = split_sign s; w = map ascii_lower r
      in if w = ''inf'' \<or> w = ''infinity'' then Some (if neg then NegInf else PosInf)
         else if w = ''nan'' then Some NaN
         else None)"

text \<open>
  The exponent part: empty, or \<^verbatim>\<open>e\<close>/\<^verbatim>\<open>E\<close>, an optional sign and at
  least one digit, up to the end of the text.
\<close>

definition parse_exponent :: "string \<Rightarrow> int option" where
  "parse_exponent r =
     (case r of
        [] \<Rightarrow> Some 0
      | c # cs \<Rightarrow>
          if c = CHR ''e'' \<or> c = CHR ''E'' then
            (let (neg, ds) = split_sign cs
             in if ds \<noteq> [] \<and> list_all is_digit ds
                then Some (if neg then - int (digits_val ds) else int (digits_val ds))
                else None)
          else None)"

definition scale10 :: "rat \<Rightarrow> int \<Rightarrow> rat" where
  "scale10 m e = (if 0 \<le> e then m * 10 ^ nat e else m / 10 ^ nat (- e))"

text \<open>The exact value of a decimal literal, \<open>None\<close> when the text is not one.\<close>

definition decimal_value :: "string \<Rightarrow> rat option" where
  "decimal_value s =
     (let (neg, r) = split_sign s;
          ip = takeWhile is_digit r; r1 = dropWhile is_digit r;
          fp = (case r1 of [] \<Rightarrow> [] | c # cs \<Rightarrow> if c = CHR ''.'' then takeWhile is_digit cs else []);
          r2 = (case r1 of [] \<Rightarrow> [] | c # cs \<Rightarrow> if c = CHR ''.'' then dropWhile is_digit cs else r1)
      in if ip = [] \<and> fp = [] then None
         else (case parse_exponent r2 of
                 None \<Rightarrow> None
               | Some e \<Rightarrow>
                   (let m = scale10 (of_nat (digits_val (ip @ fp))) (e - int (length fp))
                    in Some (if neg then - m else m))))"

text \<open>The text \<^verbatim>\<open>float\<close> parses: underscores removed, white space skipped.\<close>

definition float_body :: "string \<Rightarrow> string option" where
  "float_body text = map_option float_strip (strip_underscores (CHR 0x00) text)"

definition py_float :: "string \<Rightarrow> pyfloat option" where
  "py_float text =
     (case float_body text of
        None \<Rightarrow> None
      | Some s \<Rightarrow>
          (case decimal_value s of
             Some q \<Rightarrow> Some (to_double q)
           | None \<Rightarrow> parse_inf_or_nan s))"

section \<open>Score cells\<close>

text \<open>
  A cell of the sheet, as the program can observe it: \<open>Missing\<close> is what
  \<^verbatim>\<open>pd.isna\<close> accepts (an empty cell); \<open>Text\<close> is a \<^verbatim>\<open>str\<close>;
  \<open>IntCell\<close> is an integer; \<open>DateLike ymd s\<close> is a date or time stamp given by
  what \<^verbatim>\<open>strftime('%Y-%m-%d')\<close> and \<^verbatim>\<open>str\<close> return for it; \<open>Obj s\<close>
  is any other object (a float, a boolean), given by what \<^verbatim>\<open>str\<close> returns for it,
  so the float \<^verbatim>\<open>0.85\<close> is \<open>Obj ''0.85''\<close>.
\<close>

datatype cell = Missing | Text string | IntCell int | DateLike string string | Obj string

fun isna :: "cell \<Rightarrow> bool" where
  "isna Missing = True"
| "isna _ = False"

definition digit_char :: "nat \<Rightarrow> char" where
  "digit_char d = char_of (48 + d)"

fun str_nat :: "nat \<Rightarrow> string" where
  "str_nat n = (if n < 10 then [digit_char n] else str_nat (n div 10) @ [digit_char (n mod 10)])"

definition str_int :: "int \<Rightarrow> string" where
  "str_int i = (if i < 0 then CHR ''-'' # str_nat (nat (- i)) else str_nat (nat i))"

fun py_str :: "cell \<Rightarrow> string" where
  "py_str Missing = ''nan''"
| "py_str (Text s) = s"
| "py_str (IntCell i) = str_int i"
| "py_str (DateLike ymd s) = s"
| "py_str (Obj s) = s"

definition is_url :: "string \<Rightarrow> bool" where
  "is_url text = (startswith text ''http://'' \<or> startswith text ''https://'' \<or> startswith text ''www.'')"

definition null_sentinels :: "string list" where
  "null_sentinels = ['''', ''n/a'', ''na'', ''null'', ''none'']"

definition parse_score_value :: "cell \<Rightarrow> pyfloat option" where
  "parse_score_value score_text =
     (if isna score_text then None
      else
        (let score_str = py_strip (py_str score_text)
         in if is_url score_str then None
            else if score_str = [] \<or> py_lower score_str \<in> set null_sentinels then None
            else if CHR '','' \<in> set score_str then
              (let first_part = py_strip (takeWhile (\<lambda>c. c \<noteq> CHR '','') score_str)
               in py_float first_part)
            else py_float score_str))"

text \<open>
  The text that \<open>parse_score_value\<close> hands to \<^verbatim>\<open>float\<close> for a cell it does
  not reject before: the trimmed text, or its trimmed part before the first comma.
\<close>

definition score_segment :: "cell \<Rightarrow> string" where
  "score_segment score_text =
     (let score_str = py_strip (py_str score_text)
      in if CHR '','' \<in> set score_str
         then py_strip (takeWhile (\<lambda>c. c \<noteq> CHR '','') score_str)
         else score_str)"

section \<open>Leaderboards and percentiles\<close>

text \<open>
  A row of a leaderboard frame: its \<^verbatim>\<open>Rank\<close> and \<^verbatim>\<open>Score\<close> columns. A column
  of a frame holds values of one type, so the ranks of a frame are of one linearly ordered
  type \<open>'r\<close> (numbers, or texts in code point order); a missing rank does not occur,
  the loader drops such rows. A score is a float; NaN is the missing value.
\<close>

record 'r lb_row =
  Rank :: 'r
  Score :: pyfloat

text \<open>\<^verbatim>\<open>dropna\<close> on a series of floats.\<close>

definition dropna :: "pyfloat list \<Rightarrow> pyfloat list" where
  "dropna xs = filter (\<lambda>x. \<not> isnan x) xs"

text \<open>\<^verbatim>\<open>Series.mean\<close> of floats without NaN: the sum over the count, NaN when empty.\<close>

definition fsum :: "pyfloat list \<Rightarrow> pyfloat" where
  "fsum xs = foldl fadd (Fin 0) xs"

definition mean :: "pyfloat list \<Rightarrow> pyfloat" where
  "mean xs = (if xs = [] then NaN else fdiv_count (fsum xs) (length xs))"

text \<open>\<^verbatim>\<open>head(n)\<close> and \<^verbatim>\<open>tail(n)\<close> of a frame or series.\<close>

definition head :: "nat \<Rightarrow> 'a list \<Rightarrow> 'a list" where
  "head n xs = take n xs"

definition tail :: "nat \<Rightarrow> 'a list \<Rightarrow> 'a list" where
  "tail n xs = drop (length xs - n) xs"

text \<open>
  \<^verbatim>\<open>sort_values('Rank')\<close>: the rows in ascending order of rank. Rows of equal
  rank keep their order here; pandas' default sort does not promise that.
\<close>

definition sort_values_Rank :: "('r::linorder) lb_row list \<Rightarrow> 'r lb_row list" where
  "sort_values_Rank leaderboard_df = sort_key Rank leaderboard_df"

text \<open>
  \<^verbatim>\<open>scipy.stats.percentileofscore(a, score, kind='rank')\<close>: with \<open>left\<close> the
  number of entries below the score and \<open>right\<close> the number of entries not above it,
  \<open>(left + right + (1 if left < right else 0)) * 50 / n\<close>. A NaN score gives NaN. The
  program calls it on a non-empty array without NaN only.
\<close>

definition percentileofscore :: "pyfloat list \<Rightarrow> pyfloat \<Rightarrow> pyfloat" where
  "percentileofscore a score =
     (if isnan score \<or> list_ex isnan a \<or> a = [] then NaN
      else
        (let n = length a;
             left = length (filter (\<lambda>x. flt x score) a);
             right = length (filter (\<lambda>x. fle x score) a);
             plus1 = (if left < right then 1 else 0)
         in Fin (of_nat (left + right + plus1) * (50 / of_nat n))))"

text \<open>Python's \<^verbatim>\<open>max(0, x)\<close>: \<open>x\<close> when \<^verbatim>\<open>x > 0\<close> holds, else \<open>0\<close>; so \<open>0\<close> for NaN.\<close>

definition py_max0 :: "pyfloat \<Rightarrow> pyfloat" where
  "py_max0 x = (if fgt x (Fin 0) then x else Fin 0)"

datatype py_exception = ValueError | OverflowError | IndexError

text \<open>Python's \<^verbatim>\<open>round(x)\<close>: raises on NaN and on an infinity.\<close>

fun py_round :: "pyfloat \<Rightarrow> py_exception + int" where
  "py_round (Fin q) = Inr (round_half_even q)"
| "py_round NaN = Inl ValueError"
| "py_round PosInf = Inl OverflowError"
| "py_round NegInf = Inl OverflowError"

text \<open>
  The argument \<^verbatim>\<open>our_score\<close>: an \<^verbatim>\<open>int\<close> or \<^verbatim>\<open>float\<close> (\<open>PyNum\<close>), or
  a value of any other type.
\<close>

datatype pyval = PyNum pyfloat | PyOther

text \<open>
  Why \<^verbatim>\<open>calculate_percentile\<close> returned \<^verbatim>\<open>None\<close>: each case is one of its
  printed messages.
\<close>

datatype calc_failure = NoValidScores | UnexpectedType | ErrorCalculating py_exception

text \<open>Lines 251 to 256 of \<^verbatim>\<open>calculate_percentile\<close>: the direction.\<close>

definition first_scores :: "('r::linorder) lb_row list \<Rightarrow> pyfloat list" where
  "first_scores leaderboard_df = dropna (head 10 (map Score (sort_values_Rank leaderboard_df)))"

definition last_scores :: "('r::linorder) lb_row list \<Rightarrow> pyfloat list" where
  "last_scores leaderboard_df = dropna (tail 10 (map Score (sort_values_Rank leaderboard_df)))"

definition higher_is_better :: "('r::linorder) lb_row list \<Rightarrow> bool" where
  "higher_is_better leaderboard_df =
     (if 0 < length (first_scores leaderboard_df) \<and> 0 < length (last_scores leaderboard_df)
      then fgt (mean (first_scores leaderboard_df)) (mean (last_scores leaderboard_df))
      else True)"

definition calculate_percentile ::
    "pyval \<Rightarrow> ('r::linorder) lb_row list \<Rightarrow> nat \<Rightarrow> calc_failure + int" where
  "calculate_percentile our_score leaderboard_df total_teams =
     (let scores = dropna (map Score leaderboard_df)
      in if length scores = 0 then Inl NoValidScores
         else
           (case our_score of
              PyOther \<Rightarrow> Inl UnexpectedType
            | PyNum s \<Rightarrow>
                (let percentile =
                       (if higher_is_better leaderboard_df
                        then py_max0 (fsub (percentileofscore scores s) (Fin 1))
                        else fsub (Fin 100) (percentileofscore scores s))
                 in case py_round percentile of
                      Inl e \<Rightarrow> Inl (ErrorCalculating e)
                    | Inr result \<Rightarrow> Inr (max 1 (min 100 result)))))"

text \<open>
  The direction as section 4.3 of the specification words it: the rows sorted by rank
  ascending, the mean score of the first 10 rows against the mean score of the last 10
  rows, fewer than 10 if the leaderboard is smaller; higher is better when either group
  has no score, and otherwise exactly when the top mean is greater than the bottom mean.
\<close>

definition direction_spec :: "('r::linorder) lb_row list \<Rightarrow> bool" where
  "direction_spec rows =
     (let by_rank = sort_key Rank rows;
          k = min 10 (length rows);
          top_scores = dropna (map Score (take k by_rank));
          bottom_scores = dropna (map Score (drop (length rows - k) by_rank))
      in if top_scores = [] \<or> bottom_scores = [] then True
         else flt (mean bottom_scores) (mean top_scores))"

text \<open>The number \<open>left + right + (1 if left < right else 0)\<close> of \<open>percentileofscore\<close>.\<close>

definition rank_count :: "pyfloat list \<Rightarrow> pyfloat \<Rightarrow> nat" where
  "rank_count a score =
     (let left = length (filter (\<lambda>x. flt x score) a);
          right = length (filter (\<lambda>x. fle x score) a)
      in left + right + (if left < right then 1 else 0))"

section \<open>Loading the leaderboards\<close>

text \<open>
  A value of the \<^verbatim>\<open>Score\<close> column as \<^verbatim>\<open>read_csv\<close> delivers it: missing,
  a number, or a text. \<^verbatim>\<open>pd.to_numeric(..., errors='coerce')\<close> keeps a number,
  turns a missing value into NaN and converts a text with pandas' own converter, which
  the model takes as the parameter \<open>conv\<close> (NaN for a text that is no number).
\<close>

datatype csv_value = NA | NumVal pyfloat | StrVal string

fun to_numeric :: "(string \<Rightarrow> pyfloat) \<Rightarrow> csv_value \<Rightarrow> pyfloat" where
  "to_numeric conv NA = NaN"
| "to_numeric conv (NumVal x) = x"
| "to_numeric conv (StrVal s) = conv s"

text \<open>A row of a leaderboard file; a missing rank is \<open>None\<close>.\<close>

record 'r csv_row =
  csv_Rank :: "'r option"
  csv_Score :: csv_value

text \<open>
  What \<^verbatim>\<open>pd.read_csv\<close> gives for a file: an exception, a frame without a
  \<^verbatim>\<open>Rank\<close> column, a frame with \<^verbatim>\<open>Rank\<close> but without \<^verbatim>\<open>Score\<close>,
  or a frame with both.
\<close>

datatype 'r csv_read = ReadError | NoRankColumn | NoScoreColumn | Frame "'r csv_row list"

record 'r leaderboard =
  df :: "'r lb_row list"
  total_teams :: nat

text \<open>
  The printed lines of the loader and of the sweep, one constructor per message. The
  fixed lines of a run (the counts and the final \<^verbatim>\<open>Done!\<close>) are left out.
\<close>

datatype log_msg =
    FoundFile string
  | WarnNoRank string
  | WarnNoScore string
  | WarnNoValidData string
  | LoadedLeaderboard string nat
  | ErrorReading string
  | WarnNotFound string
  | ProcessingRow nat string string
  | SkippedValue cell
  | CalcMessage calc_failure

text \<open>\<^verbatim>\<open>dropna(subset=['Rank'])\<close>, the coercion of the scores and \<^verbatim>\<open>dropna(subset=['Score'])\<close>.\<close>

definition dropna_Rank :: "'r csv_row list \<Rightarrow> 'r csv_row list" where
  "dropna_Rank rows = filter (\<lambda>r. csv_Rank r \<noteq> None) rows"

definition coerce_Score :: "(string \<Rightarrow> pyfloat) \<Rightarrow> 'r csv_row list \<Rightarrow> 'r lb_row list" where
  "coerce_Score conv rows =
     List.map_filter
       (\<lambda>r. case csv_Rank r of
               None \<Rightarrow> None
             | Some k \<Rightarrow> Some \<lparr>Rank = k, Score = to_numeric conv (csv_Score r)\<rparr>)
       rows"

definition dropna_Score :: "'r lb_row list \<Rightarrow> 'r lb_row list" where
  "dropna_Score rows = filter (\<lambda>r. \<not> isnan (Score r)) rows"

text \<open>Lines 103 to 107: the frame that is kept for a file.\<close>

definition leaderboard_rows :: "(string \<Rightarrow> pyfloat) \<Rightarrow> 'r csv_row list \<Rightarrow> 'r lb_row list" where
  "leaderboard_rows conv rows = dropna_Score (coerce_Score conv (dropna_Rank rows))"

text \<open>The body of the loop over the files (lines 83 to 122): one file.\<close>

definition load_file ::
    "(string \<Rightarrow> pyfloat) \<Rightarrow> string \<times> 'r csv_read \<Rightarrow>
     (string \<rightharpoonup> 'r leaderboard) \<times> log_msg list \<Rightarrow> (string \<rightharpoonup> 'r leaderboard) \<times> log_msg list" where
  "load_file conv file st =
     (let competition_name = fst file;
          leaderboards = fst st;
          out = snd st @ [FoundFile competition_name]
      in case snd file of
           ReadError \<Rightarrow> (leaderboards, out @ [ErrorReading competition_name])
         | NoRankColumn \<Rightarrow> (leaderboards, out @ [WarnNoRank competition_name])
         | NoScoreColumn \<Rightarrow> (leaderboards, out @ [WarnNoScore competition_name])
         | Frame rows \<Rightarrow>
             (let leaderboard_df = leaderboard_rows conv rows;
                  total = length leaderboard_df
              in if total = 0 then (leaderboards, out @ [WarnNoValidData competition_name])
                 else (leaderboards(competition_name \<mapsto> \<lparr>df = leaderboard_df, total_teams = total\<rparr>),
                       out @ [LoadedLeaderboard competition_name total])))"

definition load_leaderboards ::
    "(string \<Rightarrow> pyfloat) \<Rightarrow> (string \<times> 'r csv_read) list \<Rightarrow>
     (string \<rightharpoonup> 'r leaderboard) \<times> log_msg list" where
  "load_leaderboards conv csv_files = foldl (\<lambda>st file. load_file conv file st) (Map.empty, []) csv_files"

text \<open>
  A converter to stand for \<open>conv\<close> in examples: what \<^verbatim>\<open>float\<close> reads, NaN for
  a text that is no number.
\<close>

definition float_or_nan :: "string \<Rightarrow> pyfloat" where
  "float_or_nan s = (case py_float s of Some v \<Rightarrow> v | None \<Rightarrow> NaN)"

section \<open>The sweep over the sheet\<close>

text \<open>
  The sheet is a list of rows, all of one length. \<open>ncols\<close> is
  \<^verbatim>\<open>len(df.columns)\<close>; it is read only when there is a data row.
\<close>

definition ncols :: "cell list list \<Rightarrow> nat" where
  "ncols sheet = (case sheet of [] \<Rightarrow> 0 | r # rs \<Rightarrow> length r)"

definition rectangular :: "cell list list \<Rightarrow> bool" where
  "rectangular sheet = list_all (\<lambda>r. length r = ncols sheet) sheet"

text \<open>\<^verbatim>\<open>row.iloc[i]\<close>: raises out of range.\<close>

definition iloc :: "'a list \<Rightarrow> nat \<Rightarrow> py_exception + 'a" where
  "iloc row i = (if i < length row then Inr (row ! i) else Inl IndexError)"

text \<open>\<^verbatim>\<open>result_df.iloc[idx, col_idx] = v\<close>.\<close>

definition set_cell :: "cell list list \<Rightarrow> nat \<Rightarrow> nat \<Rightarrow> cell \<Rightarrow> cell list list" where
  "set_cell sheet idx col_idx v = sheet[idx := (sheet ! idx)[col_idx := v]]"

record sweep_state =
  result_df :: "cell list list"
  updates_count :: nat
  messages :: "log_msg list"

text \<open>Lines 145 to 152: the name under which the row's leaderboard is looked up.\<close>

fun competition_str_of :: "cell \<Rightarrow> string" where
  "competition_str_of (DateLike ymd s) = ymd"
| "competition_str_of competition = py_str competition"

text \<open>Lines 168 to 185: one cell of a row.\<close>

definition process_cell ::
    "('r::linorder) leaderboard \<Rightarrow> cell list \<Rightarrow> nat \<Rightarrow> nat \<Rightarrow> sweep_state \<Rightarrow> sweep_state" where
  "process_cell lb row idx col_idx st =
     (let score_raw = row ! col_idx
      in case parse_score_value score_raw of
           None \<Rightarrow>
             (if updates_count st < 5 \<and> \<not> isna score_raw
              then st\<lparr>messages := messages st @ [SkippedValue score_raw]\<rparr>
              else st)
         | Some score \<Rightarrow>
             (case calculate_percentile (PyNum score) (df lb) (total_teams lb) of
                Inl failure \<Rightarrow> st\<lparr>messages := messages st @ [CalcMessage failure]\<rparr>
              | Inr percentile \<Rightarrow>
                  st\<lparr>result_df := set_cell (result_df st) idx col_idx (IntCell percentile),
                     updates_count := updates_count st + 1\<rparr>))"

text \<open>The loop over the result columns, with its \<^verbatim>\<open>break\<close>.\<close>

fun process_columns ::
    "('r::linorder) leaderboard \<Rightarrow> cell list \<Rightarrow> nat \<Rightarrow> nat \<Rightarrow> nat list \<Rightarrow> sweep_state \<Rightarrow> sweep_state" where
  "process_columns lb row idx n [] st = st"
| "process_columns lb row idx n (col_idx # rest) st =
     (if n \<le> col_idx then st
      else process_columns lb row idx n rest (process_cell lb row idx col_idx st))"

definition start_col :: nat where
  "start_col = 11"

definition end_col :: "cell list list \<Rightarrow> int" where
  "end_col sheet = min 88 (int (ncols sheet) - 1)"

text \<open>\<^verbatim>\<open>range(start_col, end_col + 1)\<close>.\<close>

definition result_columns :: "cell list list \<Rightarrow> nat list" where
  "result_columns sheet = [start_col ..< nat (end_col sheet + 1)]"

text \<open>Lines 138 to 185: one data row. The reads of columns 4 and 1 can raise.\<close>

definition process_row ::
    "(string \<rightharpoonup> ('r::linorder) leaderboard) \<Rightarrow> cell list list \<Rightarrow> nat \<Rightarrow> sweep_state \<Rightarrow>
     py_exception + sweep_state" where
  "process_row leaderboards sheet idx st =
     (let row = sheet ! idx
      in case iloc row 4 of
           Inl e \<Rightarrow> Inl e
         | Inr competition \<Rightarrow>
             if isna competition then Inr st
             else
               (let competition_str = competition_str_of competition
                in case leaderboards competition_str of
                     None \<Rightarrow> Inr (st\<lparr>messages := messages st @ [WarnNotFound competition_str]\<rparr>)
                   | Some lb \<Rightarrow>
                       (case iloc row 1 of
                          Inl e \<Rightarrow> Inl e
                        | Inr name_cell \<Rightarrow>
                            (let comp_name = (if \<not> isna name_cell then py_str name_cell else ''Unknown'');
                                 st1 = st\<lparr>messages := messages st @
                                          [ProcessingRow (idx + 1) comp_name competition_str]\<rparr>
                             in Inr (process_columns lb row idx (ncols sheet)
                                       (result_columns sheet) st1)))))"

text \<open>The loop over the data rows; an exception ends the run.\<close>

fun process_rows ::
    "(string \<rightharpoonup> ('r::linorder) leaderboard) \<Rightarrow> cell list list \<Rightarrow> nat list \<Rightarrow> sweep_state \<Rightarrow>
     py_exception + sweep_state" where
  "process_rows leaderboards sheet [] st = Inr st"
| "process_rows leaderboards sheet (idx # rest) st =
     (case process_row leaderboards sheet idx st of
        Inl e \<Rightarrow> Inl e
      | Inr st' \<Rightarrow> process_rows leaderboards sheet rest st')"

definition sweep ::
    "(string \<rightharpoonup> ('r::linorder) leaderboard) \<Rightarrow> cell list list \<Rightarrow> py_exception + sweep_state" where
  "sweep leaderboards sheet =
     process_rows leaderboards sheet [2 ..< length sheet]
       \<lparr>result_df = sheet, updates_count = 0, messages = []\<rparr>"

text \<open>
  \<^verbatim>\<open>convert_scores_to_percentiles\<close>: the returned frame and the printed
  messages. The workbook it also writes holds the first two rows of the input and the
  data rows of the returned frame.
\<close>

definition convert_scores_to_percentiles ::
    "(string \<Rightarrow> pyfloat) \<Rightarrow> cell list list \<Rightarrow> (string \<times> ('r::linorder) csv_read) list \<Rightarrow>
     py_exception + cell list list \<times> log_msg list" where
  "convert_scores_to_percentiles conv sheet csv_files =
     (let loaded = load_leaderboards conv csv_files
      in case sweep (fst loaded) sheet of
           Inl e \<Rightarrow> Inl e
         | Inr st \<Rightarrow> Inr (result_df st, snd loaded @ messages st))"

text \<open>
  The percentile of a cell against a leaderboard, when the parsing of the score and the
  computation of the percentile both succeed.
\<close>

definition percentile_of_cell :: "('r::linorder) leaderboard \<Rightarrow> cell \<Rightarrow> int option" where
  "percentile_of_cell lb c =
     (case parse_score_value c of
        None \<Rightarrow> None
      | Some score \<Rightarrow>
          (case calculate_percentile (PyNum score) (df lb) (total_teams lb) of
             Inl failure \<Rightarrow> None
           | Inr percentile \<Rightarrow> Some percentile))"

text \<open>
  The cell of the returned frame at row \<open>i\<close> and column \<open>j\<close>, stated directly: the
  percentile where the row is a data row, the column is one of the result columns, the
  row's competition has a loaded leaderboard and the cell has a percentile; the input
  cell everywhere else.
\<close>

definition swept_cell ::
    "(string \<rightharpoonup> ('r::linorder) leaderboard) \<Rightarrow> cell list list \<Rightarrow> nat \<Rightarrow> nat \<Rightarrow> cell" where
  "swept_cell leaderboards sheet i j =
     (if 2 \<le> i \<and> start_col \<le> j \<and> int j \<le> end_col sheet \<and> \<not> isna (sheet ! i ! 4)
      then (case leaderboards (competition_str_of (sheet ! i ! 4)) of
              None \<Rightarrow> sheet ! i ! j
            | Some lb \<Rightarrow>
                (case percentile_of_cell lb (sheet ! i ! j) of
                   None \<Rightarrow> sheet ! i ! j
                 | Some percentile \<Rightarrow> IntCell percentile))
      else sheet ! i ! j)"

text \<open>
  The invariant of the loop over the data rows: the frame keeps its shape, the rows in
  \<open>S\<close> (those already processed) hold the swept cells and every other row is as in
  the input.
\<close>

definition row_inv ::
    "(string \<rightharpoonup> ('r::linorder) leaderboard) \<Rightarrow> cell list list \<Rightarrow> nat set \<Rightarrow> cell list list \<Rightarrow> bool" where
  "row_inv leaderboards sheet S T \<longleftrightarrow>
     length T = length sheet \<and>
     (\<forall>i < length sheet. length (T ! i) = length (sheet ! i) \<and>
        (\<forall>j < length (sheet ! i).
           T ! i ! j = (if i \<in> S then swept_cell leaderboards sheet i j else sheet ! i ! j)))"

text \<open>Row \<open>i\<close> names the competition \<open>k\<close>, and no leaderboard is loaded for \<open>k\<close>.\<close>

definition no_leaderboard ::
    "(string \<rightharpoonup> ('r::linorder) leaderboard) \<Rightarrow> cell list list \<Rightarrow> string \<Rightarrow> nat \<Rightarrow> bool" where
  "no_leaderboard leaderboards sheet k i \<longleftrightarrow>
     \<not> isna (sheet ! i ! 4) \<and> competition_str_of (sheet ! i ! 4) = k \<and> leaderboards k = None"

text \<open>
  A sheet and a set of loaded leaderboards for examples: two header rows and two data
  rows of 12 columns; the first data row names the loaded competition \<^verbatim>\<open>c\<close>, the
  second names \<^verbatim>\<open>x\<close>, for which nothing is loaded.
\<close>

definition example_sheet :: "cell list list" where
  "example_sheet =
     [replicate 12 (Text ''header''),
      replicate 12 (Text ''header''),
      [IntCell 1, Text ''a'', Missing, Missing, Text ''c'', Missing, Missing, Missing, Missing,
       Missing, Text ''0.7'', Text ''0.5''],
      [IntCell 2, Text ''b'', Missing, Missing, Text ''x'', Missing, Missing, Missing, Missing,
       Missing, Text ''0.7'', Text ''0.5'']]"

definition example_leaderboards :: "string \<rightharpoonup> nat leaderboard" where
  "example_leaderboards =
     [''c'' \<mapsto> \<lparr>df = [\<lparr>Rank = 1, Score = Fin 1\<rparr>, \<lparr>Rank = 2, Score = Fin 0\<rparr>], total_teams = 2\<rparr>]"

section \<open>Facts about the numbers\<close>

lemma flt_imp_fle: "flt a b \<Longrightarrow> fle a b"
  by (cases a; cases b) simp_all

lemma flt_asym: "flt a b \<Longrightarrow> \<not> fle b a"
  by (cases a; cases b) simp_all

lemma fle_flt_trans: "fle a c \<Longrightarrow> flt c b \<Longrightarrow> flt a b"
  by (cases a; cases b; cases c) simp_all

lemma fle_trans: "fle a c \<Longrightarrow> fle c b \<Longrightarrow> fle a b"
  by (cases a; cases b; cases c) simp_all

lemma fle_total: "\<not> isnan a \<Longrightarrow> \<not> isnan b \<Longrightarrow> fle a b \<or> fle b a"
  by (cases a; cases b) auto

lemma rank_count_above_all:
  assumes "\<forall>x \<in> set a. flt x s"
  shows "rank_count a s = 2 * length a"
proof -
  have "filter (\<lambda>x. flt x s) a = a" "filter (\<lambda>x. fle x s) a = a"
    using assms by (simp_all add: flt_imp_fle)
  then show ?thesis by (simp add: rank_count_def Let_def)
qed

lemma rank_count_below_all:
  assumes "\<forall>x \<in> set a. flt s x"
  shows "rank_count a s = 0"
proof -
  have "\<forall>x \<in> set a. \<not> fle x s"
    using assms flt_asym by blast
  then have "filter (\<lambda>x. flt x s) a = []" "filter (\<lambda>x. fle x s) a = []"
    using flt_imp_fle by (auto simp: filter_empty_conv)
  then show ?thesis by (simp add: rank_count_def)
qed

lemma max_elem:
  "xs \<noteq> [] \<Longrightarrow> \<forall>x \<in> set xs. \<not> isnan x \<Longrightarrow> \<exists>m \<in> set xs. \<forall>x \<in> set xs. fle x m"
proof (induction xs)
  case Nil
  then show ?case by simp
next
  case (Cons a xs)
  show ?case
  proof (cases "xs = []")
    case True
    with Cons.prems show ?thesis by (cases a) auto
  next
    case False
    with Cons obtain m where m: "m \<in> set xs" "\<forall>x \<in> set xs. fle x m"
      by auto
    have aa: "fle a a" using Cons.prems by (cases a) auto
    have mm: "fle m m" using Cons.prems m(1) by (cases m) auto
    from Cons.prems m(1) have "fle a m \<or> fle m a"
      by (intro fle_total) auto
    then show ?thesis
    proof
      assume "fle a m"
      with m show ?thesis by auto
    next
      assume ma: "fle m a"
      then have "\<forall>x \<in> set xs. fle x a"
        using m(2) fle_trans by blast
      with aa show ?thesis by auto
    qed
  qed
qed

lemma min_elem:
  "xs \<noteq> [] \<Longrightarrow> \<forall>x \<in> set xs. \<not> isnan x \<Longrightarrow> \<exists>m \<in> set xs. \<forall>x \<in> set xs. fle m x"
proof (induction xs)
  case Nil
  then show ?case by simp
next
  case (Cons a xs)
  show ?case
  proof (cases "xs = []")
    case True
    with Cons.prems show ?thesis by (cases a) auto
  next
    case False
    with Cons obtain m where m: "m \<in> set xs" "\<forall>x \<in> set xs. fle m x"
      by auto
    have aa: "fle a a" using Cons.prems by (cases a) auto
    from Cons.prems m(1) have "fle a m \<or> fle m a"
      by (intro fle_total) auto
    then show ?thesis
    proof
      assume am: "fle a m"
      then have "\<forall>x \<in> set xs. fle a x"
        using m(2) fle_trans by blast
      with aa show ?thesis by auto
    next
      assume "fle m a"
      with m show ?thesis by auto
    qed
  qed
qed

lemma separator:
  assumes "ts \<noteq> []" "bs \<noteq> []" "\<forall>t \<in> set ts. \<forall>b \<in> set bs. flt b t"
  shows "\<exists>m. (\<forall>t \<in> set ts. flt (Fin m) t) \<and> (\<forall>b \<in> set bs. fle b (Fin m))"
proof -
  have nb: "\<forall>b \<in> set bs. \<not> isnan b \<and> b \<noteq> PosInf"
  proof
    fix b assume "b \<in> set bs"
    moreover obtain t where "t \<in> set ts" using assms(1) by (cases ts) auto
    ultimately have "flt b t" using assms(3) by blast
    then show "\<not> isnan b \<and> b \<noteq> PosInf" by (cases b; cases t) auto
  qed
  have nt: "\<forall>t \<in> set ts. \<not> isnan t \<and> t \<noteq> NegInf"
  proof
    fix t assume "t \<in> set ts"
    moreover obtain b where "b \<in> set bs" using assms(2) by (cases bs) auto
    ultimately have "flt b t" using assms(3) by blast
    then show "\<not> isnan t \<and> t \<noteq> NegInf" by (cases b; cases t) auto
  qed
  obtain bm where bm: "bm \<in> set bs" "\<forall>b \<in> set bs. fle b bm"
    using max_elem [OF assms(2)] nb by blast
  obtain tm where tm: "tm \<in> set ts" "\<forall>t \<in> set ts. fle tm t"
    using min_elem [OF assms(1)] nt by blast
  show ?thesis
  proof (cases bm)
    case (Fin q)
    have "\<forall>t \<in> set ts. flt (Fin q) t"
      using assms(3) bm(1) Fin by blast
    with bm(2) Fin show ?thesis by blast
  next
    case PosInf
    with nb bm(1) show ?thesis by blast
  next
    case NaN
    with nb bm(1) show ?thesis by force
  next
    case NegInf
    have allneg: "\<forall>b \<in> set bs. b = NegInf"
    proof
      fix b assume "b \<in> set bs"
      then have "fle b NegInf" using bm(2) NegInf by blast
      then show "b = NegInf" by (cases b) auto
    qed
    show ?thesis
    proof (cases tm)
      case (Fin q)
      have "\<forall>t \<in> set ts. flt (Fin (q - 1)) t"
      proof
        fix t assume "t \<in> set ts"
        then have "fle (Fin q) t" using tm(2) Fin by blast
        then show "flt (Fin (q - 1)) t" by (cases t) auto
      qed
      moreover have "\<forall>b \<in> set bs. fle b (Fin (q - 1))"
        using allneg by auto
      ultimately show ?thesis by blast
    next
      case PosInf
      have "\<forall>t \<in> set ts. flt (Fin 0) t"
      proof
        fix t assume "t \<in> set ts"
        then have "fle PosInf t" using tm(2) PosInf by blast
        then show "flt (Fin 0) t" by (cases t) auto
      qed
      moreover have "\<forall>b \<in> set bs. fle b (Fin 0)"
        using allneg by auto
      ultimately show ?thesis by blast
    next
      case NegInf
      with nt tm(1) show ?thesis by blast
    next
      case NaN
      with nt tm(1) show ?thesis by force
    qed
  qed
qed

lemma foldl_fadd_PosInf: "\<forall>x \<in> set xs. flt (Fin m) x \<Longrightarrow> foldl fadd PosInf xs = PosInf"
proof (induction xs)
  case Nil
  then show ?case by simp
next
  case (Cons x xs)
  then have "fadd PosInf x = PosInf" by (cases x) auto
  with Cons show ?case by simp
qed

lemma foldl_fadd_NegInf: "\<forall>x \<in> set xs. fle x (Fin m) \<Longrightarrow> foldl fadd NegInf xs = NegInf"
proof (induction xs)
  case Nil
  then show ?case by simp
next
  case (Cons x xs)
  then have "fadd NegInf x = NegInf" by (cases x) auto
  with Cons show ?case by simp
qed

lemma foldl_fadd_lower:
  "\<forall>x \<in> set xs. flt (Fin m) x \<Longrightarrow>
   foldl fadd (Fin a) xs = PosInf \<or>
   (\<exists>s. foldl fadd (Fin a) xs = Fin s \<and> a + of_nat (length xs) * m \<le> s \<and>
        (xs \<noteq> [] \<longrightarrow> a + of_nat (length xs) * m < s))"
proof (induction xs arbitrary: a)
  case Nil
  then show ?case by simp
next
  case (Cons x xs)
  from Cons.prems have x: "flt (Fin m) x" and rest: "\<forall>x \<in> set xs. flt (Fin m) x"
    by simp_all
  show ?case
  proof (cases x)
    case (Fin q)
    with x have mq: "m < q" by simp
    from Cons.IH [OF rest, of "a + q"] show ?thesis
    proof
      assume "foldl fadd (Fin (a + q)) xs = PosInf"
      with Fin show ?thesis by simp
    next
      assume "\<exists>s. foldl fadd (Fin (a + q)) xs = Fin s \<and> a + q + of_nat (length xs) * m \<le> s \<and>
        (xs \<noteq> [] \<longrightarrow> a + q + of_nat (length xs) * m < s)"
      then obtain s where s: "foldl fadd (Fin (a + q)) xs = Fin s"
          "a + q + of_nat (length xs) * m \<le> s" by blast
      have "a + of_nat (length (x # xs)) * m < s"
        using s(2) mq by (simp add: algebra_simps)
      with s(1) Fin show ?thesis by auto
    qed
  next
    case PosInf
    with rest show ?thesis by (simp add: foldl_fadd_PosInf)
  next
    case NegInf
    with x show ?thesis by simp
  next
    case NaN
    with x show ?thesis by simp
  qed
qed

lemma foldl_fadd_upper:
  "\<forall>x \<in> set xs. fle x (Fin m) \<Longrightarrow>
   foldl fadd (Fin a) xs = NegInf \<or>
   (\<exists>s. foldl fadd (Fin a) xs = Fin s \<and> s \<le> a + of_nat (length xs) * m)"
proof (induction xs arbitrary: a)
  case Nil
  then show ?case by simp
next
  case (Cons x xs)
  from Cons.prems have x: "fle x (Fin m)" and rest: "\<forall>x \<in> set xs. fle x (Fin m)"
    by simp_all
  show ?case
  proof (cases x)
    case (Fin q)
    with x have mq: "q \<le> m" by simp
    from Cons.IH [OF rest, of "a + q"] show ?thesis
    proof
      assume "foldl fadd (Fin (a + q)) xs = NegInf"
      with Fin show ?thesis by simp
    next
      assume "\<exists>s. foldl fadd (Fin (a + q)) xs = Fin s \<and> s \<le> a + q + of_nat (length xs) * m"
      then obtain s where s: "foldl fadd (Fin (a + q)) xs = Fin s"
          "s \<le> a + q + of_nat (length xs) * m" by blast
      have "s \<le> a + of_nat (length (x # xs)) * m"
        using s(2) mq by (simp add: algebra_simps)
      with s(1) Fin show ?thesis by auto
    qed
  next
    case NegInf
    with rest show ?thesis by (simp add: foldl_fadd_NegInf)
  next
    case PosInf
    with x show ?thesis by simp
  next
    case NaN
    with x show ?thesis by simp
  qed
qed

lemma mean_lower:
  assumes "xs \<noteq> []" "\<forall>x \<in> set xs. flt (Fin m) x"
  shows "flt (Fin m) (mean xs)"
proof -
  have pos: "0 < (of_nat (length xs) :: rat)" using assms(1) by simp
  from foldl_fadd_lower [OF assms(2), of 0] show ?thesis
  proof
    assume "foldl fadd (Fin 0) xs = PosInf"
    with assms(1) show ?thesis by (simp add: mean_def fsum_def)
  next
    assume "\<exists>s. foldl fadd (Fin 0) xs = Fin s \<and> 0 + of_nat (length xs) * m \<le> s \<and>
        (xs \<noteq> [] \<longrightarrow> 0 + of_nat (length xs) * m < s)"
    then obtain s where s: "foldl fadd (Fin 0) xs = Fin s" "of_nat (length xs) * m < s"
      using assms(1) by auto
    have "m < s / of_nat (length xs)"
      using s(2) pos by (simp add: pos_less_divide_eq mult.commute)
    with s(1) assms(1) show ?thesis by (simp add: mean_def fsum_def)
  qed
qed

lemma mean_upper:
  assumes "xs \<noteq> []" "\<forall>x \<in> set xs. fle x (Fin m)"
  shows "fle (mean xs) (Fin m)"
proof -
  have pos: "0 < (of_nat (length xs) :: rat)" using assms(1) by simp
  from foldl_fadd_upper [OF assms(2), of 0] show ?thesis
  proof
    assume "foldl fadd (Fin 0) xs = NegInf"
    with assms(1) show ?thesis by (simp add: mean_def fsum_def)
  next
    assume "\<exists>s. foldl fadd (Fin 0) xs = Fin s \<and> s \<le> 0 + of_nat (length xs) * m"
    then obtain s where s: "foldl fadd (Fin 0) xs = Fin s" "s \<le> of_nat (length xs) * m"
      by auto
    have "s / of_nat (length xs) \<le> m"
      using s(2) pos by (simp add: pos_divide_le_eq mult.commute)
    with s(1) assms(1) show ?thesis by (simp add: mean_def fsum_def)
  qed
qed

lemma separated_means:
  assumes "ts \<noteq> []" "bs \<noteq> []" "\<forall>t \<in> set ts. \<forall>b \<in> set bs. flt b t"
  shows "fgt (mean ts) (mean bs)"
proof -
  obtain m where m: "\<forall>t \<in> set ts. flt (Fin m) t" "\<forall>b \<in> set bs. fle b (Fin m)"
    using separator [OF assms] by blast
  have "flt (Fin m) (mean ts)" using mean_lower [OF assms(1) m(1)] .
  moreover have "fle (mean bs) (Fin m)" using mean_upper [OF assms(2) m(2)] .
  ultimately show ?thesis
    unfolding fgt_def by (rule fle_flt_trans [rotated])
qed

section \<open>The percentile calculator\<close>

lemma dropna_no_nan: "\<not> list_ex isnan (dropna xs)"
  by (simp add: dropna_def list_ex_iff)

lemma dropna_nonempty:
  "dropna (map Score rows) \<noteq> [] \<longleftrightarrow> (\<exists>row \<in> set rows. \<not> isnan (Score row))"
  by (auto simp: dropna_def filter_empty_conv)

lemma percentileofscore_Fin:
  assumes "a \<noteq> []" "\<not> list_ex isnan a" "\<not> isnan s"
  shows "percentileofscore a s = Fin (of_nat (rank_count a s) * (50 / of_nat (length a)))"
  using assms by (simp add: percentileofscore_def rank_count_def Let_def)

lemma py_round_max0_sub1:
  "py_round (py_max0 (fsub (Fin P) (Fin 1))) = Inr (round_half_even (max 0 (P - 1)))"
  by (simp add: py_max0_def fsub_def fgt_def max_def)


lemma head_tail_small: "length xs \<le> n \<Longrightarrow> head n xs = xs \<and> tail n xs = xs"
  by (simp add: head_def tail_def)

lemma flt_irrefl: "\<not> flt x x"
  by (cases x) simp_all



text \<open>
  The input score NaN, which the parser returns for the text \<^verbatim>\<open>nan\<close>, is outside
  claim C1: on a leaderboard where lower is better, \<^verbatim>\<open>round\<close> raises and no
  percentile is returned.
\<close>

lemma calculate_percentile_nan:
  "calculate_percentile (PyNum NaN) [\<lparr>Rank = 1::nat, Score = Fin 5\<rparr>] 1 =
     Inl (ErrorCalculating ValueError)"
  by code_simp

section \<open>The direction\<close>

lemma higher_is_better_spec: "higher_is_better rows = direction_spec rows"
proof -
  let ?s = "sort_key Rank rows"
  have t: "head 10 (map Score ?s) = map Score (take (min 10 (length rows)) ?s)"
    by (simp add: head_def take_map min_def)
  have "length rows - min 10 (length rows) = length rows - 10"
    by (simp add: min_def)
  then have b: "tail 10 (map Score ?s) = map Score (drop (length rows - min 10 (length rows)) ?s)"
    by (simp add: tail_def drop_map)
  show ?thesis
    unfolding higher_is_better_def direction_spec_def first_scores_def last_scores_def
      sort_values_Rank_def t b Let_def fgt_def
    by auto
qed

text \<open>
  Claim C3. The direction that \<open>calculate_percentile\<close> uses is the one the
  specification describes: rows sorted by rank ascending, the mean score of the first 10
  rows against the mean score of the last 10 rows (fewer on a smaller leaderboard),
  higher is better exactly when the top mean is greater than the bottom mean, and by
  default when a group has no score. It is a function of the leaderboard alone: every
  queried score is ranked with the same direction.
\<close>

theorem direction_inference:
  "higher_is_better leaderboard_df = direction_spec leaderboard_df \<and>
   (\<forall>s n. calculate_percentile (PyNum s) leaderboard_df n =
      (if dropna (map Score leaderboard_df) = [] then Inl NoValidScores
       else case py_round
                   (if direction_spec leaderboard_df
                    then py_max0 (fsub (percentileofscore (dropna (map Score leaderboard_df)) s) (Fin 1))
                    else fsub (Fin 100) (percentileofscore (dropna (map Score leaderboard_df)) s)) of
              Inl e \<Rightarrow> Inl (ErrorCalculating e)
            | Inr result \<Rightarrow> Inr (max 1 (min 100 result))))"
  by (simp add: higher_is_better_spec calculate_percentile_def Let_def)

theorem direction_inference_witness:
  "higher_is_better [\<lparr>Rank = 2::nat, Score = Fin 1\<rparr>, \<lparr>Rank = 1, Score = Fin 3\<rparr>] =
     direction_spec [\<lparr>Rank = 2::nat, Score = Fin 1\<rparr>, \<lparr>Rank = 1, Score = Fin 3\<rparr>] \<and>
   \<not> direction_spec [\<lparr>Rank = 2::nat, Score = Fin 1\<rparr>, \<lparr>Rank = 1, Score = Fin 3\<rparr>]"
proof -
  have "\<not> direction_spec [\<lparr>Rank = 2::nat, Score = Fin 1\<rparr>, \<lparr>Rank = 1, Score = Fin 3\<rparr>]"
    by code_simp
  with direction_inference [of "[\<lparr>Rank = 2::nat, Score = Fin 1\<rparr>, \<lparr>Rank = 1, Score = Fin 3\<rparr>]"]
  show ?thesis by blast
qed

text \<open>
  Claim C10. On a leaderboard of at most 10 rows with a numeric score, the first 10 and
  the last 10 rows by rank are the same rows, the two means are the same value, the
  comparison fails and lower is better is selected, whatever the scores are.
\<close>

theorem small_leaderboard_lower_is_better:
  assumes "length leaderboard_df \<le> 10" and "\<exists>row \<in> set leaderboard_df. \<not> isnan (Score row)"
  shows "head 10 (sort_values_Rank leaderboard_df) = tail 10 (sort_values_Rank leaderboard_df) \<and>
         first_scores leaderboard_df = last_scores leaderboard_df \<and>
         mean (first_scores leaderboard_df) = mean (last_scores leaderboard_df) \<and>
         \<not> higher_is_better leaderboard_df"
proof -
  have len: "length (sort_values_Rank leaderboard_df) \<le> 10"
    using assms(1) by (simp add: sort_values_Rank_def)
  have rows: "head 10 (sort_values_Rank leaderboard_df) = tail 10 (sort_values_Rank leaderboard_df)"
    using head_tail_small [OF len] by simp
  have len': "length (map Score (sort_values_Rank leaderboard_df)) \<le> 10"
    using len by simp
  have fl: "first_scores leaderboard_df = dropna (map Score (sort_values_Rank leaderboard_df))"
       "last_scores leaderboard_df = dropna (map Score (sort_values_Rank leaderboard_df))"
    using head_tail_small [OF len'] by (simp_all add: first_scores_def last_scores_def)
  have "first_scores leaderboard_df \<noteq> []"
    using assms(2) unfolding fl by (simp add: dropna_nonempty sort_values_Rank_def)
  then have "\<not> higher_is_better leaderboard_df"
    by (simp add: higher_is_better_def fl fgt_def flt_irrefl)
  with rows fl show ?thesis by simp
qed

theorem small_leaderboard_lower_is_better_witness:
  "first_scores [\<lparr>Rank = 1::nat, Score = Fin 9\<rparr>, \<lparr>Rank = 2, Score = Fin 4\<rparr>] =
     last_scores [\<lparr>Rank = 1::nat, Score = Fin 9\<rparr>, \<lparr>Rank = 2, Score = Fin 4\<rparr>] \<and>
   \<not> higher_is_better [\<lparr>Rank = 1::nat, Score = Fin 9\<rparr>, \<lparr>Rank = 2, Score = Fin 4\<rparr>]"
proof -
  have a: "length [\<lparr>Rank = 1::nat, Score = Fin 9\<rparr>, \<lparr>Rank = 2, Score = Fin 4\<rparr>] \<le> 10"
    by simp
  have b: "\<exists>row \<in> set [\<lparr>Rank = 1::nat, Score = Fin 9\<rparr>, \<lparr>Rank = 2, Score = Fin 4\<rparr>]. \<not> isnan (Score row)"
    by simp
  from small_leaderboard_lower_is_better [OF a b] show ?thesis by blast
qed

section \<open>A leaderboard whose top scores exceed its bottom scores\<close>

lemma dropna_id: "\<forall>x \<in> set xs. \<not> isnan x \<Longrightarrow> dropna xs = xs"
  by (simp add: dropna_def)

lemma round_half_even_of_int: "round_half_even (of_int k) = k"
  by (simp add: round_half_even_def Let_def)

text \<open>
  The parts of claim C2 that hold, and the part that does not: when every score of the
  first 10 rows by rank exceeds every score of the last 10 rows, higher is better is
  selected; a score below every leaderboard score gets percentile 1; a score above every
  leaderboard score gets percentile 99, since one point is subtracted from the rank
  percentage 100.
\<close>

lemma separated_leaderboard:
  fixes leaderboard_df :: "('r::linorder) lb_row list"
  assumes ne: "leaderboard_df \<noteq> []"
    and nonan: "\<forall>row \<in> set leaderboard_df. \<not> isnan (Score row)"
    and sep: "\<forall>x \<in> set (first_scores leaderboard_df). \<forall>y \<in> set (last_scores leaderboard_df). flt y x"
  shows "higher_is_better leaderboard_df"
    and "(\<forall>row \<in> set leaderboard_df. flt (Score row) s) \<Longrightarrow>
           calculate_percentile (PyNum s) leaderboard_df n = Inr 99"
    and "(\<forall>row \<in> set leaderboard_df. flt s (Score row)) \<Longrightarrow>
           calculate_percentile (PyNum s) leaderboard_df n = Inr 1"
proof -
  let ?sorted = "map Score (sort_values_Rank leaderboard_df)"
  have "length ?sorted = length leaderboard_df"
    by (simp add: sort_values_Rank_def)
  with ne have sne: "?sorted \<noteq> []"
    by (metis length_0_conv)
  have snn: "\<forall>x \<in> set ?sorted. \<not> isnan x"
    using nonan by (simp add: sort_values_Rank_def)
  have "set (head 10 ?sorted) \<subseteq> set ?sorted" "set (tail 10 ?sorted) \<subseteq> set ?sorted"
    unfolding head_def tail_def by (rule set_take_subset, rule set_drop_subset)
  with snn have "\<forall>x \<in> set (head 10 ?sorted). \<not> isnan x" "\<forall>x \<in> set (tail 10 ?sorted). \<not> isnan x"
    by blast+
  then have f: "first_scores leaderboard_df = head 10 ?sorted"
    and l: "last_scores leaderboard_df = tail 10 ?sorted"
    by (simp_all add: first_scores_def last_scores_def dropna_id)
  have fne: "first_scores leaderboard_df \<noteq> []"
    using sne unfolding f by (simp add: head_def)
  have "0 < length ?sorted" using sne by simp
  then have "length ?sorted - 10 < length ?sorted" by arith
  then have lne: "last_scores leaderboard_df \<noteq> []"
    unfolding l tail_def by simp
  show hib: "higher_is_better leaderboard_df"
    using fne lne separated_means [OF fne lne sep] by (simp add: higher_is_better_def)
  let ?scores = "dropna (map Score leaderboard_df)"
  have sc: "?scores = map Score leaderboard_df"
    using nonan by (simp add: dropna_id)
  have scne: "?scores \<noteq> []" using ne sc by simp
  have len: "0 < (of_nat (length leaderboard_df) :: rat)" using ne by simp
  {
    assume above: "\<forall>row \<in> set leaderboard_df. flt (Score row) s"
    obtain r where "r \<in> set leaderboard_df" using ne by (cases leaderboard_df) auto
    with above have "flt (Score r) s" by blast
    then have sn: "\<not> isnan s" by (cases "Score r"; cases s) auto
    have "rank_count ?scores s = 2 * length leaderboard_df"
      using above rank_count_above_all [of ?scores s] sc by simp
    then have "percentileofscore ?scores s = Fin 100"
      using percentileofscore_Fin [OF scne dropna_no_nan sn] sc len by simp
    then show "calculate_percentile (PyNum s) leaderboard_df n = Inr 99"
      using scne hib round_half_even_of_int [of 99]
      by (simp add: calculate_percentile_def Let_def py_round_max0_sub1)
  }
  {
    assume below: "\<forall>row \<in> set leaderboard_df. flt s (Score row)"
    obtain r where "r \<in> set leaderboard_df" using ne by (cases leaderboard_df) auto
    with below have "flt s (Score r)" by blast
    then have sn: "\<not> isnan s" by (cases "Score r"; cases s) auto
    have "rank_count ?scores s = 0"
      using below rank_count_below_all [of ?scores s] sc by simp
    then have "percentileofscore ?scores s = Fin 0"
      using percentileofscore_Fin [OF scne dropna_no_nan sn] by simp
    then show "calculate_percentile (PyNum s) leaderboard_df n = Inr 1"
      using scne hib round_half_even_of_int [of 0]
      by (simp add: calculate_percentile_def Let_def py_round_max0_sub1)
  }
qed

text \<open>
  Claim C2 at a concrete leaderboard: 20 rows ranked 1 to 20 with the scores 0.98, 0.96,
  ..., 0.60, so that all top scores exceed all bottom scores, and the input score 0.99
  above every one of them. Higher is better is selected and the percentile is 99, where
  the claim says 100.
\<close>

theorem best_score_gets_99:
  "higher_is_better (map (\<lambda>i. \<lparr>Rank = i, Score = Fin ((100 - 2 * of_nat i) / 100)\<rparr>) [1..<21]) \<and>
   calculate_percentile (PyNum (Fin (99 / 100)))
     (map (\<lambda>i. \<lparr>Rank = i, Score = Fin ((100 - 2 * of_nat i) / 100)\<rparr>) [1..<21]) 20 = Inr 99"
  by code_simp

section \<open>The score parser\<close>

lemmas parser_defs =
  parse_score_value_def py_strip_def py_isspace_def is_url_def startswith_def
  null_sentinels_def py_lower_def lower_char_def py_float_def float_body_def float_strip_def
  float_isspace_def decimal_value_def is_digit_def parse_exponent_def scale10_def
  digits_val_def digit_val_def to_double_def overflow_threshold_def parse_inf_or_nan_def
  ascii_lower_def

lemma strip_keeps_prefix:
  assumes "startswith t p" "p \<noteq> []" "\<not> py_isspace (hd p)" "\<not> py_isspace (last p)"
  shows "startswith (py_strip t) p"
proof -
  obtain r where t: "t = p @ r"
    using assms(1) unfolding startswith_def by (metis append_take_drop_id)
  obtain a p' where p: "p = a # p'" using assms(2) by (cases p) auto
  have front: "dropWhile py_isspace (p @ r) = p @ r"
    using assms(3) p by simp
  have rp: "dropWhile py_isspace (rev p) = rev p"
    using assms(2,4) by (cases "rev p") (auto simp: last_rev hd_rev [symmetric] dest: arg_cong [where f = hd])
  have "\<exists>x. dropWhile py_isspace (rev r @ rev p) = x @ rev p"
  proof (cases "\<forall>c \<in> set (rev r). py_isspace c")
    case True
    then have "dropWhile py_isspace (rev r @ rev p) = [] @ rev p"
      using rp by (simp add: dropWhile_append2 del: set_rev)
    then show ?thesis by blast
  next
    case False
    then obtain c where "c \<in> set (rev r)" "\<not> py_isspace c" by blast
    then have "dropWhile py_isspace (rev r @ rev p) = dropWhile py_isspace (rev r) @ rev p"
      by (rule dropWhile_append1)
    then show ?thesis by blast
  qed
  then obtain x where "dropWhile py_isspace (rev (p @ r)) = x @ rev p" by auto
  then have "py_strip t = p @ rev x"
    by (simp add: py_strip_def t front)
  then show ?thesis by (simp add: startswith_def)
qed

lemma is_url_strip: "is_url t \<Longrightarrow> is_url (py_strip t)"
  unfolding is_url_def
  by (auto intro!: strip_keeps_prefix simp: py_isspace_def)

text \<open>
  Claim C4. A cell that is missing, or whose trimmed text is, in any letter case, one of
  the null sentinels (the empty text, \<^verbatim>\<open>n/a\<close>, \<^verbatim>\<open>na\<close>, \<^verbatim>\<open>null\<close>,
  \<^verbatim>\<open>none\<close>), or whose text begins with \<^verbatim>\<open>http://\<close>, \<^verbatim>\<open>https://\<close> or
  \<^verbatim>\<open>www.\<close>, parses to no value.
\<close>

theorem rejected_cells_have_no_value:
  assumes "isna c \<or> py_lower (py_strip (py_str c)) \<in> set null_sentinels \<or>
           startswith (py_str c) ''http://'' \<or> startswith (py_str c) ''https://'' \<or>
           startswith (py_str c) ''www.''"
  shows "parse_score_value c = None"
proof -
  consider "isna c" | "py_lower (py_strip (py_str c)) \<in> set null_sentinels" | "is_url (py_str c)"
    using assms by (auto simp: is_url_def)
  then show ?thesis
  proof cases
    case 1
    then show ?thesis by (simp add: parse_score_value_def)
  next
    case 2
    then show ?thesis by (simp add: parse_score_value_def Let_def)
  next
    case 3
    then have "is_url (py_strip (py_str c))" by (rule is_url_strip)
    then show ?thesis by (simp add: parse_score_value_def Let_def)
  qed
qed

theorem rejected_cells_have_no_value_witness:
  "parse_score_value Missing = None \<and> parse_score_value (Text '' N/A '') = None \<and>
   parse_score_value (Text ''https://example.com/run/17'') = None"
proof -
  have a: "isna Missing \<or> py_lower (py_strip (py_str Missing)) \<in> set null_sentinels \<or>
           startswith (py_str Missing) ''http://'' \<or> startswith (py_str Missing) ''https://'' \<or>
           startswith (py_str Missing) ''www.''"
    by simp
  have b: "isna (Text '' N/A '') \<or> py_lower (py_strip (py_str (Text '' N/A ''))) \<in> set null_sentinels \<or>
           startswith (py_str (Text '' N/A '')) ''http://'' \<or> startswith (py_str (Text '' N/A '')) ''https://'' \<or>
           startswith (py_str (Text '' N/A '')) ''www.''"
    by code_simp
  have c: "isna (Text ''https://example.com/run/17'') \<or>
           py_lower (py_strip (py_str (Text ''https://example.com/run/17''))) \<in> set null_sentinels \<or>
           startswith (py_str (Text ''https://example.com/run/17'')) ''http://'' \<or>
           startswith (py_str (Text ''https://example.com/run/17'')) ''https://'' \<or>
           startswith (py_str (Text ''https://example.com/run/17'')) ''www.''"
    by (simp add: startswith_def)
  show ?thesis
    using rejected_cells_have_no_value [OF a] rejected_cells_have_no_value [OF b]
      rejected_cells_have_no_value [OF c] by simp
qed

text \<open>
  Claim C5. For a text that is neither a sentinel nor a URL and contains a comma, the
  parser returns what \<^verbatim>\<open>float\<close> returns for the trimmed part before the first
  comma, and no value when that is no number. The text \<^verbatim>\<open>0.85, ignore this\<close>
  parses to 0.85, \<^verbatim>\<open>0.85\<close> parses to 0.85 and \<^verbatim>\<open>abc\<close> parses to no value.
\<close>

theorem comma_text_first_segment:
  "(\<not> isna c \<and> \<not> is_url (py_strip (py_str c)) \<and> py_strip (py_str c) \<noteq> [] \<and>
    py_lower (py_strip (py_str c)) \<notin> set null_sentinels \<and> CHR '','' \<in> set (py_strip (py_str c)) \<longrightarrow>
      parse_score_value c =
        py_float (py_strip (takeWhile (\<lambda>ch. ch \<noteq> CHR '','') (py_strip (py_str c))))) \<and>
   parse_score_value (Text ''0.85, ignore this'') = Some (Fin (17 / 20)) \<and>
   parse_score_value (Text ''0.85'') = Some (Fin (17 / 20)) \<and>
   parse_score_value (Text ''abc'') = None"
proof (intro conjI impI)
  assume "\<not> isna c \<and> \<not> is_url (py_strip (py_str c)) \<and> py_strip (py_str c) \<noteq> [] \<and>
    py_lower (py_strip (py_str c)) \<notin> set null_sentinels \<and> CHR '','' \<in> set (py_strip (py_str c))"
  then show "parse_score_value c =
        py_float (py_strip (takeWhile (\<lambda>ch. ch \<noteq> CHR '','') (py_strip (py_str c))))"
    by (simp add: parse_score_value_def Let_def)
next
  show "parse_score_value (Text ''0.85, ignore this'') = Some (Fin (17 / 20))"
    by (simp add: parser_defs)
next
  show "parse_score_value (Text ''0.85'') = Some (Fin (17 / 20))"
    by (simp add: parser_defs)
next
  show "parse_score_value (Text ''abc'') = None"
    by (simp add: parser_defs)
qed

theorem comma_text_first_segment_witness:
  "parse_score_value (Text ''1.5,2.5'') = py_float ''1.5'' \<and> py_float ''1.5'' = Some (Fin (3 / 2)) \<and>
   parse_score_value (Text ''x, 3'') = None"
proof -
  have a: "\<not> isna (Text ''1.5,2.5'') \<and> \<not> is_url (py_strip (py_str (Text ''1.5,2.5''))) \<and>
      py_strip (py_str (Text ''1.5,2.5'')) \<noteq> [] \<and>
      py_lower (py_strip (py_str (Text ''1.5,2.5''))) \<notin> set null_sentinels \<and>
      CHR '','' \<in> set (py_strip (py_str (Text ''1.5,2.5'')))"
    by (simp add: parser_defs)
  have b: "py_strip (takeWhile (\<lambda>ch. ch \<noteq> CHR '','') (py_strip (py_str (Text ''1.5,2.5'')))) = ''1.5''"
    by (simp add: parser_defs)
  have c: "py_float ''1.5'' = Some (Fin (3 / 2))"
    by (simp add: parser_defs)
  have d: "\<not> isna (Text ''x, 3'') \<and> \<not> is_url (py_strip (py_str (Text ''x, 3''))) \<and>
      py_strip (py_str (Text ''x, 3'')) \<noteq> [] \<and>
      py_lower (py_strip (py_str (Text ''x, 3''))) \<notin> set null_sentinels \<and>
      CHR '','' \<in> set (py_strip (py_str (Text ''x, 3'')))"
    by (simp add: parser_defs)
  have e: "py_float (py_strip (takeWhile (\<lambda>ch. ch \<noteq> CHR '','') (py_strip (py_str (Text ''x, 3''))))) = None"
    by (simp add: parser_defs)
  from comma_text_first_segment [of "Text ''1.5,2.5''"] a b
  have "parse_score_value (Text ''1.5,2.5'') = py_float ''1.5''" by simp
  moreover from comma_text_first_segment [of "Text ''x, 3''"] d e
  have "parse_score_value (Text ''x, 3'') = None" by simp
  ultimately show ?thesis using c by simp
qed

text \<open>
  Claim C6 says the parser never returns an infinity or NaN. It does, for the texts
  \<^verbatim>\<open>inf\<close> and \<^verbatim>\<open>nan\<close>.
\<close>

theorem parser_returns_inf_and_nan:
  "parse_score_value (Text ''inf'') = Some PosInf \<and> parse_score_value (Text ''nan'') = Some NaN"
  by (simp add: parser_defs)

lemma parse_score_value_segment:
  "parse_score_value c = Some v \<Longrightarrow> py_float (score_segment c) = Some v"
  by (simp add: parse_score_value_def score_segment_def Let_def split: if_splits)

lemma py_float_special:
  assumes "py_float t = Some v" "\<not> isfinite v"
  shows "\<exists>s. float_body t = Some s \<and>
           (map ascii_lower (snd (split_sign s)) \<in> {''inf'', ''infinity'', ''nan''} \<or>
            (\<exists>q. decimal_value s = Some q \<and> overflow_threshold \<le> \<bar>q\<bar>))"
proof -
  from assms(1) obtain s where s: "float_body t = Some s"
    by (auto simp: py_float_def split: option.splits)
  show ?thesis
  proof (cases "decimal_value s")
    case (Some q)
    with assms s have "overflow_threshold \<le> \<bar>q\<bar>"
      by (auto simp: py_float_def to_double_def split: if_splits)
    with s Some show ?thesis by blast
  next
    case None
    with assms(1) s have "parse_inf_or_nan s = Some v"
      by (simp add: py_float_def)
    then have "map ascii_lower (snd (split_sign s)) \<in> {''inf'', ''infinity'', ''nan''}"
      by (auto simp: parse_inf_or_nan_def Let_def split: prod.splits if_splits)
    with s show ?thesis by auto
  qed
qed

text \<open>
  Claim C6 as amended. For every cell the parser returns no value, or a finite number,
  or an infinity or NaN; the last only when the text handed to \<^verbatim>\<open>float\<close> spells
  \<^verbatim>\<open>inf\<close>, \<^verbatim>\<open>infinity\<close> or \<^verbatim>\<open>nan\<close> (any letter case, after an optional
  sign), or is a decimal literal too large for a binary64 number.
\<close>

theorem parse_score_value_finite_or_special:
  "parse_score_value c = None \<or> (\<exists>q. parse_score_value c = Some (Fin q)) \<or>
   (\<exists>s v. parse_score_value c = Some v \<and> (v = PosInf \<or> v = NegInf \<or> v = NaN) \<and>
          float_body (score_segment c) = Some s \<and>
          (map ascii_lower (snd (split_sign s)) \<in> {''inf'', ''infinity'', ''nan''} \<or>
           (\<exists>q. decimal_value s = Some q \<and> overflow_threshold \<le> \<bar>q\<bar>)))"
proof (cases "parse_score_value c")
  case None
  then show ?thesis by simp
next
  case (Some v)
  show ?thesis
  proof (cases v)
    case (Fin q)
    with Some show ?thesis by simp
  next
    case PosInf
    with Some py_float_special [OF parse_score_value_segment [OF Some]] show ?thesis by simp
  next
    case NegInf
    with Some py_float_special [OF parse_score_value_segment [OF Some]] show ?thesis by simp
  next
    case NaN
    with Some py_float_special [OF parse_score_value_segment [OF Some]] show ?thesis by simp
  qed
qed

theorem parse_score_value_finite_or_special_witness:
  "(\<exists>q. parse_score_value (Text ''0.85'') = Some (Fin q)) \<and> parse_score_value (Text ''abc'') = None \<and>
   (\<exists>s. float_body (score_segment (Text ''-Infinity'')) = Some s \<and>
        map ascii_lower (snd (split_sign s)) \<in> {''inf'', ''infinity'', ''nan''})"
proof -
  have a: "parse_score_value (Text ''0.85'') = Some (Fin (17 / 20))"
    by (simp add: parser_defs)
  have b: "parse_score_value (Text ''abc'') = None"
    by (simp add: parser_defs)
  have c: "parse_score_value (Text ''-Infinity'') = Some NegInf"
    by code_simp
  have d: "decimal_value s \<noteq> Some q" if "float_body (score_segment (Text ''-Infinity'')) = Some s" for s q
  proof -
    have "float_body (score_segment (Text ''-Infinity'')) = Some ''-Infinity''"
      by code_simp
    with that have "s = ''-Infinity''" by simp
    moreover have "decimal_value ''-Infinity'' = None" by code_simp
    ultimately show ?thesis by simp
  qed
  from parse_score_value_finite_or_special [of "Text ''-Infinity''"] c d
  have "\<exists>s. float_body (score_segment (Text ''-Infinity'')) = Some s \<and>
        map ascii_lower (snd (split_sign s)) \<in> {''inf'', ''infinity'', ''nan''}"
    by auto
  with a b show ?thesis by blast
qed

section \<open>The leaderboard loader\<close>

lemma set_map_filter:
  "set (List.map_filter g xs) = {y. \<exists>x \<in> set xs. g x = Some y}"
  by (induction xs) (auto split: option.splits)

lemma leaderboard_rows_iff:
  "row \<in> set (leaderboard_rows conv rows) \<longleftrightarrow>
   (\<exists>raw \<in> set rows. csv_Rank raw = Some (Rank row) \<and>
                      to_numeric conv (csv_Score raw) = Score row \<and> \<not> isnan (Score row))"
proof
  assume "row \<in> set (leaderboard_rows conv rows)"
  then have nn: "\<not> isnan (Score row)" and "row \<in> set (coerce_Score conv (dropna_Rank rows))"
    by (simp_all add: leaderboard_rows_def dropna_Score_def)
  then obtain raw where "raw \<in> set rows" "csv_Rank raw \<noteq> None"
      "(case csv_Rank raw of None \<Rightarrow> None
        | Some k \<Rightarrow> Some \<lparr>Rank = k, Score = to_numeric conv (csv_Score raw)\<rparr>) = Some row"
    by (auto simp: coerce_Score_def dropna_Rank_def set_map_filter)
  then show "\<exists>raw \<in> set rows. csv_Rank raw = Some (Rank row) \<and>
      to_numeric conv (csv_Score raw) = Score row \<and> \<not> isnan (Score row)"
    using nn by (auto split: option.splits)
next
  assume "\<exists>raw \<in> set rows. csv_Rank raw = Some (Rank row) \<and>
      to_numeric conv (csv_Score raw) = Score row \<and> \<not> isnan (Score row)"
  then obtain raw where raw: "raw \<in> set rows" "csv_Rank raw = Some (Rank row)"
      "to_numeric conv (csv_Score raw) = Score row" "\<not> isnan (Score row)"
    by blast
  have "row = \<lparr>Rank = Rank row, Score = Score row\<rparr>" by simp
  with raw have "row \<in> set (coerce_Score conv (dropna_Rank rows))"
    by (force simp: coerce_Score_def dropna_Rank_def set_map_filter)
  with raw(4) show "row \<in> set (leaderboard_rows conv rows)"
    by (simp add: leaderboard_rows_def dropna_Score_def)
qed

lemma leaderboard_rows_empty_iff:
  "leaderboard_rows conv rows = [] \<longleftrightarrow>
   (\<forall>raw \<in> set rows. csv_Rank raw = None \<or> isnan (to_numeric conv (csv_Score raw)))"
proof
  assume e: "leaderboard_rows conv rows = []"
  show "\<forall>raw \<in> set rows. csv_Rank raw = None \<or> isnan (to_numeric conv (csv_Score raw))"
  proof (rule ballI, rule ccontr)
    fix raw assume raw: "raw \<in> set rows"
      and "\<not> (csv_Rank raw = None \<or> isnan (to_numeric conv (csv_Score raw)))"
    then obtain k where k: "csv_Rank raw = Some k" "\<not> isnan (to_numeric conv (csv_Score raw))"
      by auto
    have "\<lparr>Rank = k, Score = to_numeric conv (csv_Score raw)\<rparr> \<in> set (leaderboard_rows conv rows)"
      unfolding leaderboard_rows_iff using raw k by auto
    with e show False by simp
  qed
next
  assume a: "\<forall>raw \<in> set rows. csv_Rank raw = None \<or> isnan (to_numeric conv (csv_Score raw))"
  show "leaderboard_rows conv rows = []"
  proof (rule ccontr)
    assume "leaderboard_rows conv rows \<noteq> []"
    then obtain row where "row \<in> set (leaderboard_rows conv rows)"
      by (cases "leaderboard_rows conv rows") auto
    then show False
      unfolding leaderboard_rows_iff using a by force
  qed
qed

lemma load_leaderboards_snoc:
  "load_leaderboards conv (files @ [fl]) = load_file conv fl (load_leaderboards conv files)"
  by (simp add: load_leaderboards_def)

lemma fst_load_file:
  "fst (load_file conv (name, content) st) =
     (case content of
        Frame rows \<Rightarrow>
          if leaderboard_rows conv rows = [] then fst st
          else (fst st)(name \<mapsto> \<lparr>df = leaderboard_rows conv rows,
                                   total_teams = length (leaderboard_rows conv rows)\<rparr>)
      | _ \<Rightarrow> fst st)"
  by (simp add: load_file_def Let_def split: csv_read.splits)

lemma snd_load_file:
  "snd (load_file conv (name, content) st) =
     snd st @ [FoundFile name,
       (case content of
          ReadError \<Rightarrow> ErrorReading name
        | NoRankColumn \<Rightarrow> WarnNoRank name
        | NoScoreColumn \<Rightarrow> WarnNoScore name
        | Frame rows \<Rightarrow>
            if leaderboard_rows conv rows = [] then WarnNoValidData name
            else LoadedLeaderboard name (length (leaderboard_rows conv rows)))]"
  by (simp add: load_file_def Let_def split: csv_read.splits)

lemma loaded_from_file:
  "fst (load_leaderboards conv files) name = Some lb \<Longrightarrow>
   \<exists>rows. (name, Frame rows) \<in> set files \<and> leaderboard_rows conv rows \<noteq> [] \<and>
          lb = \<lparr>df = leaderboard_rows conv rows, total_teams = length (leaderboard_rows conv rows)\<rparr>"
proof (induction files arbitrary: lb rule: rev_induct)
  case Nil
  then show ?case by (simp add: load_leaderboards_def)
next
  case (snoc fl files)
  obtain nm content where fl: "fl = (nm, content)" by (cases fl)
  show ?case
  proof (cases "fst (load_leaderboards conv (files @ [fl])) name = fst (load_leaderboards conv files) name")
    case True
    with snoc show ?thesis by auto
  next
    case False
    then obtain rows where "content = Frame rows" "leaderboard_rows conv rows \<noteq> []" "nm = name"
      "fst (load_leaderboards conv (files @ [fl])) name =
         Some \<lparr>df = leaderboard_rows conv rows, total_teams = length (leaderboard_rows conv rows)\<rparr>"
      unfolding load_leaderboards_snoc fl fst_load_file
      by (auto split: csv_read.splits if_splits)
    with snoc.prems fl show ?thesis by auto
  qed
qed

lemma not_loaded:
  assumes "\<forall>rows. (name, Frame rows) \<in> set files \<longrightarrow> leaderboard_rows conv rows = []"
  shows "fst (load_leaderboards conv files) name = None"
proof (rule ccontr)
  assume "fst (load_leaderboards conv files) name \<noteq> None"
  then obtain lb where "fst (load_leaderboards conv files) name = Some lb" by auto
  from loaded_from_file [OF this] assms show False by blast
qed

lemma load_file_logged:
  "(name, content) \<in> set files \<Longrightarrow>
   (case content of
      ReadError \<Rightarrow> ErrorReading name
    | NoRankColumn \<Rightarrow> WarnNoRank name
    | NoScoreColumn \<Rightarrow> WarnNoScore name
    | Frame rows \<Rightarrow>
        if leaderboard_rows conv rows = [] then WarnNoValidData name
        else LoadedLeaderboard name (length (leaderboard_rows conv rows)))
   \<in> set (snd (load_leaderboards conv files))"
proof (induction files rule: rev_induct)
  case Nil
  then show ?case by simp
next
  case (snoc fl files)
  obtain nm c where fl: "fl = (nm, c)" by (cases fl)
  from snoc.prems consider "(name, content) = fl" | "(name, content) \<in> set files" by auto
  then show ?case
  proof cases
    case 1
    with fl have "nm = name" "c = content" by simp_all
    then show ?thesis
      unfolding load_leaderboards_snoc fl snd_load_file by (simp split: csv_read.splits)
  next
    case 2
    from snoc.IH [OF this] show ?thesis
      unfolding load_leaderboards_snoc fl snd_load_file by simp
  qed
qed

lemma loaded_unique:
  assumes "(name, Frame rows) \<in> set files" "leaderboard_rows conv rows \<noteq> []"
    and "\<forall>content. (name, content) \<in> set files \<longrightarrow> content = Frame rows"
  shows "fst (load_leaderboards conv files) name =
           Some \<lparr>df = leaderboard_rows conv rows, total_teams = length (leaderboard_rows conv rows)\<rparr>"
  using assms
proof (induction files rule: rev_induct)
  case Nil
  then show ?case by simp
next
  case (snoc fl files)
  obtain nm c where fl: "fl = (nm, c)" by (cases fl)
  show ?case
  proof (cases "nm = name")
    case True
    with snoc.prems(3) fl have "c = Frame rows" by simp
    with True snoc.prems(2) show ?thesis
      unfolding load_leaderboards_snoc fl fst_load_file by simp
  next
    case False
    with snoc.prems(1) fl have in_files: "(name, Frame rows) \<in> set files" by auto
    have "\<forall>content. (name, content) \<in> set files \<longrightarrow> content = Frame rows"
      using snoc.prems(3) by simp
    from snoc.IH [OF in_files snoc.prems(2) this] False show ?thesis
      unfolding load_leaderboards_snoc fl fst_load_file by (simp split: csv_read.splits)
  qed
qed

text \<open>
  A loaded leaderboard is not empty and has no NaN score, so it has a numeric score, and
  its count is its length.
\<close>

lemma loaded_leaderboard_numeric:
  assumes "fst (load_leaderboards conv files) name = Some lb"
  shows "df lb \<noteq> [] \<and> (\<forall>row \<in> set (df lb). \<not> isnan (Score row)) \<and>
         (\<exists>row \<in> set (df lb). \<not> isnan (Score row)) \<and> total_teams lb = length (df lb)"
proof -
  from loaded_from_file [OF assms] obtain rows where rows: "leaderboard_rows conv rows \<noteq> []"
      "lb = \<lparr>df = leaderboard_rows conv rows, total_teams = length (leaderboard_rows conv rows)\<rparr>"
    by blast
  have nn: "\<forall>row \<in> set (df lb). \<not> isnan (Score row)"
    using rows(2) by (auto simp: leaderboard_rows_iff)
  moreover obtain row where "row \<in> set (df lb)"
    using rows by (cases "leaderboard_rows conv rows") auto
  ultimately show ?thesis using rows by auto
qed

text \<open>
  Claim C7 says the loader discards every entry whose rank is not numeric. It keeps such
  an entry: only a missing rank is dropped, the ranks are never converted to numbers.
  Here a file whose only entry has the rank \<^verbatim>\<open>first\<close>, which \<^verbatim>\<open>float\<close>
  rejects, is loaded with that entry.
\<close>

theorem loader_keeps_non_numeric_rank:
  "py_float ''first'' = None \<and>
   fst (load_leaderboards float_or_nan
          [(''comp'', Frame [\<lparr>csv_Rank = Some ''first'', csv_Score = NumVal (Fin (1 / 2))\<rparr>])]) ''comp'' =
     Some \<lparr>df = [\<lparr>Rank = ''first'', Score = Fin (1 / 2)\<rparr>], total_teams = 1\<rparr>"
  by (simp add: parser_defs load_leaderboards_def load_file_def leaderboard_rows_def
        dropna_Score_def coerce_Score_def dropna_Rank_def Let_def)

text \<open>
  Ranks that are texts are sorted as texts, in code point order, when the direction is
  inferred: the rank \<^verbatim>\<open>10\<close> comes before the rank \<^verbatim>\<open>2\<close>.
\<close>

lemma text_ranks_sort_by_code_point:
  "map Rank (sort_values_Rank [\<lparr>Rank = ''2'', Score = Fin 1\<rparr>, \<lparr>Rank = ''10'', Score = Fin 2\<rparr>]) =
     [''10'', ''2'']"
  by code_simp

text \<open>
  Claim C7 as amended. The entries of a loaded leaderboard are exactly the entries of
  its file that have a rank and whose score converts to a number (is not NaN after the
  coercion): an entry with a missing rank, or with a missing or non-numeric score, is
  discarded, and every retained entry has a present rank and a numeric score. A
  leaderboard is never empty and its count is its length. A file none of whose entries
  survives is logged and gives no leaderboard, and the other files are loaded all the
  same.
\<close>

theorem loader_entries:
  "(\<forall>name lb. fst (load_leaderboards conv files) name = Some lb \<longrightarrow>
      (\<exists>rows. (name, Frame rows) \<in> set files \<and> df lb \<noteq> [] \<and> total_teams lb = length (df lb) \<and>
         (\<forall>row. row \<in> set (df lb) \<longleftrightarrow>
            (\<exists>raw \<in> set rows. csv_Rank raw = Some (Rank row) \<and>
               to_numeric conv (csv_Score raw) = Score row \<and> \<not> isnan (Score row))))) \<and>
   (\<forall>name rows. (name, Frame rows) \<in> set files \<and>
        (\<forall>raw \<in> set rows. csv_Rank raw = None \<or> isnan (to_numeric conv (csv_Score raw))) \<longrightarrow>
      WarnNoValidData name \<in> set (snd (load_leaderboards conv files)) \<and>
      ((\<forall>content. (name, content) \<in> set files \<longrightarrow> content = Frame rows) \<longrightarrow>
         fst (load_leaderboards conv files) name = None)) \<and>
   (\<forall>name rows. (name, Frame rows) \<in> set files \<and>
        (\<forall>content. (name, content) \<in> set files \<longrightarrow> content = Frame rows) \<and>
        (\<exists>raw \<in> set rows. csv_Rank raw \<noteq> None \<and> \<not> isnan (to_numeric conv (csv_Score raw))) \<longrightarrow>
      fst (load_leaderboards conv files) name =
        Some \<lparr>df = leaderboard_rows conv rows, total_teams = length (leaderboard_rows conv rows)\<rparr>)"
proof (intro conjI allI impI)
  fix name lb
  assume "fst (load_leaderboards conv files) name = Some lb"
  from loaded_from_file [OF this] obtain rows where rows: "(name, Frame rows) \<in> set files"
      "leaderboard_rows conv rows \<noteq> []"
      "lb = \<lparr>df = leaderboard_rows conv rows, total_teams = length (leaderboard_rows conv rows)\<rparr>"
    by blast
  have "\<forall>row. row \<in> set (df lb) \<longleftrightarrow>
      (\<exists>raw \<in> set rows. csv_Rank raw = Some (Rank row) \<and>
         to_numeric conv (csv_Score raw) = Score row \<and> \<not> isnan (Score row))"
    using rows(3) by (simp add: leaderboard_rows_iff)
  with rows show "\<exists>rows. (name, Frame rows) \<in> set files \<and> df lb \<noteq> [] \<and>
      total_teams lb = length (df lb) \<and>
      (\<forall>row. row \<in> set (df lb) \<longleftrightarrow>
         (\<exists>raw \<in> set rows. csv_Rank raw = Some (Rank row) \<and>
            to_numeric conv (csv_Score raw) = Score row \<and> \<not> isnan (Score row)))"
    by (intro exI [of _ rows]) simp
next
  fix name rows
  assume a: "(name, Frame rows) \<in> set files \<and>
      (\<forall>raw \<in> set rows. csv_Rank raw = None \<or> isnan (to_numeric conv (csv_Score raw)))"
  then have e: "leaderboard_rows conv rows = []"
    by (simp add: leaderboard_rows_empty_iff)
  from a load_file_logged [of name "Frame rows" files conv] e
  show "WarnNoValidData name \<in> set (snd (load_leaderboards conv files))"
    by simp
  assume "\<forall>content. (name, content) \<in> set files \<longrightarrow> content = Frame rows"
  with e have "\<forall>rows'. (name, Frame rows') \<in> set files \<longrightarrow> leaderboard_rows conv rows' = []"
    by auto
  then show "fst (load_leaderboards conv files) name = None"
    by (rule not_loaded)
next
  fix name rows
  assume a: "(name, Frame rows) \<in> set files \<and>
      (\<forall>content. (name, content) \<in> set files \<longrightarrow> content = Frame rows) \<and>
      (\<exists>raw \<in> set rows. csv_Rank raw \<noteq> None \<and> \<not> isnan (to_numeric conv (csv_Score raw)))"
  then have "leaderboard_rows conv rows \<noteq> []"
    by (auto simp: leaderboard_rows_empty_iff)
  with a show "fst (load_leaderboards conv files) name =
      Some \<lparr>df = leaderboard_rows conv rows, total_teams = length (leaderboard_rows conv rows)\<rparr>"
    by (intro loaded_unique) simp_all
qed

theorem loader_entries_witness:
  "WarnNoValidData ''a'' \<in> set (snd (load_leaderboards float_or_nan
      [(''a'', Frame [\<lparr>csv_Rank = None, csv_Score = NumVal (Fin 1)\<rparr>,
                     \<lparr>csv_Rank = Some (1::nat), csv_Score = StrVal ''abc''\<rparr>]),
       (''b'', Frame [\<lparr>csv_Rank = Some 1, csv_Score = NumVal (Fin 3)\<rparr>])])) \<and>
   fst (load_leaderboards float_or_nan
      [(''a'', Frame [\<lparr>csv_Rank = None, csv_Score = NumVal (Fin 1)\<rparr>,
                     \<lparr>csv_Rank = Some (1::nat), csv_Score = StrVal ''abc''\<rparr>]),
       (''b'', Frame [\<lparr>csv_Rank = Some 1, csv_Score = NumVal (Fin 3)\<rparr>])]) ''a'' = None"
proof -
  let ?rows = "[\<lparr>csv_Rank = None, csv_Score = NumVal (Fin 1)\<rparr>,
                \<lparr>csv_Rank = Some (1::nat), csv_Score = StrVal ''abc''\<rparr>]"
  let ?files = "[(''a'', Frame ?rows), (''b'', Frame [\<lparr>csv_Rank = Some 1, csv_Score = NumVal (Fin 3)\<rparr>])]"
  have nan: "float_or_nan ''abc'' = NaN"
    by (simp add: float_or_nan_def parser_defs)
  have h: "(''a'', Frame ?rows) \<in> set ?files \<and>
      (\<forall>raw \<in> set ?rows. csv_Rank raw = None \<or> isnan (to_numeric float_or_nan (csv_Score raw)))"
    using nan by simp
  have u: "\<forall>content. (''a'', content) \<in> set ?files \<longrightarrow> content = Frame ?rows"
    by simp
  from loader_entries [of float_or_nan ?files, THEN conjunct2, THEN conjunct1, rule_format, OF h] u
  show ?thesis by blast
qed

section \<open>The sweep\<close>

lemma nth_set_cell:
  "i < length T \<Longrightarrow> j < length (T ! i) \<Longrightarrow>
   set_cell T idx c v ! i ! j = (if i = idx \<and> j = c then v else T ! i ! j)"
  by (cases "i = idx"; cases "j = c") (simp_all add: set_cell_def)

lemma length_set_cell: "length (set_cell T idx c v) = length T"
  by (simp add: set_cell_def)

lemma length_row_set_cell: "i < length T \<Longrightarrow> length (set_cell T idx c v ! i) = length (T ! i)"
  by (cases "i = idx") (simp_all add: set_cell_def)

lemma result_df_process_cell:
  "result_df (process_cell lb row idx c st) =
     (case percentile_of_cell lb (row ! c) of
        None \<Rightarrow> result_df st
      | Some p \<Rightarrow> set_cell (result_df st) idx c (IntCell p))"
  by (simp add: process_cell_def percentile_of_cell_def Let_def split: option.splits sum.splits)

lemma process_columns_frame:
  assumes "distinct cols" "\<forall>c \<in> set cols. c < n"
  shows "length (result_df (process_columns lb row idx n cols st)) = length (result_df st) \<and>
    (\<forall>i < length (result_df st).
       length (result_df (process_columns lb row idx n cols st) ! i) = length (result_df st ! i) \<and>
       (\<forall>j < length (result_df st ! i).
          result_df (process_columns lb row idx n cols st) ! i ! j =
            (if i = idx \<and> j \<in> set cols
             then (case percentile_of_cell lb (row ! j) of
                     None \<Rightarrow> result_df st ! i ! j
                   | Some p \<Rightarrow> IntCell p)
             else result_df st ! i ! j)))"
  using assms
proof (induction cols arbitrary: st)
  case Nil
  then show ?case by simp
next
  case (Cons c cols)
  let ?st1 = "process_cell lb row idx c st"
  have step: "process_columns lb row idx n (c # cols) st = process_columns lb row idx n cols ?st1"
    using Cons.prems(2) by simp
  have d: "distinct cols" "\<forall>c \<in> set cols. c < n" "c \<notin> set cols"
    using Cons.prems by simp_all
  note IH = Cons.IH [OF d(1,2), of ?st1]
  have len1: "length (result_df ?st1) = length (result_df st)"
    by (simp add: result_df_process_cell length_set_cell split: option.splits)
  have row1: "length (result_df ?st1 ! i) = length (result_df st ! i)" if "i < length (result_df st)" for i
    using that by (simp add: result_df_process_cell length_row_set_cell split: option.splits)
  have cell1: "result_df ?st1 ! i ! j =
      (if i = idx \<and> j = c
       then (case percentile_of_cell lb (row ! j) of None \<Rightarrow> result_df st ! i ! j | Some p \<Rightarrow> IntCell p)
       else result_df st ! i ! j)"
    if "i < length (result_df st)" "j < length (result_df st ! i)" for i j
    using that by (cases "percentile_of_cell lb (row ! c)") (auto simp: result_df_process_cell nth_set_cell)
  show ?case
    unfolding step
  proof (intro conjI allI impI)
    show "length (result_df (process_columns lb row idx n cols ?st1)) = length (result_df st)"
      using IH len1 by simp
  next
    fix i assume i: "i < length (result_df st)"
    then show "length (result_df (process_columns lb row idx n cols ?st1) ! i) = length (result_df st ! i)"
      using IH len1 row1 by simp
  next
    fix i j assume i: "i < length (result_df st)" and j: "j < length (result_df st ! i)"
    have "result_df (process_columns lb row idx n cols ?st1) ! i ! j =
        (if i = idx \<and> j \<in> set cols
         then (case percentile_of_cell lb (row ! j) of
                 None \<Rightarrow> result_df ?st1 ! i ! j
               | Some p \<Rightarrow> IntCell p)
         else result_df ?st1 ! i ! j)"
      using IH i j len1 row1 by simp
    then show "result_df (process_columns lb row idx n cols ?st1) ! i ! j =
        (if i = idx \<and> j \<in> set (c # cols)
         then (case percentile_of_cell lb (row ! j) of
                 None \<Rightarrow> result_df st ! i ! j
               | Some p \<Rightarrow> IntCell p)
         else result_df st ! i ! j)"
      using cell1 [OF i j] d(3) by (auto split: option.splits)
  qed
qed


lemma result_columns_iff:
  "c \<in> set (result_columns sheet) \<longleftrightarrow> start_col \<le> c \<and> int c \<le> end_col sheet"
  by (auto simp: result_columns_def)

lemma result_columns_bound: "c \<in> set (result_columns sheet) \<Longrightarrow> c < ncols sheet"
  by (auto simp: result_columns_def end_col_def)

lemma distinct_result_columns: "distinct (result_columns sheet)"
  by (simp add: result_columns_def)

lemma rectangular_row: "rectangular sheet \<Longrightarrow> i < length sheet \<Longrightarrow> length (sheet ! i) = ncols sheet"
  by (simp add: rectangular_def list_all_length)

lemma process_row_cases:
  assumes "4 < length (sheet ! idx)"
  shows "process_row leaderboards sheet idx st =
     Inr (if isna (sheet ! idx ! 4) then st
          else (case leaderboards (competition_str_of (sheet ! idx ! 4)) of
                  None \<Rightarrow> st\<lparr>messages := messages st @ [WarnNotFound (competition_str_of (sheet ! idx ! 4))]\<rparr>
                | Some lb \<Rightarrow>
                    process_columns lb (sheet ! idx) idx (ncols sheet) (result_columns sheet)
                      (st\<lparr>messages := messages st @
                            [ProcessingRow (idx + 1)
                               (if \<not> isna (sheet ! idx ! 1) then py_str (sheet ! idx ! 1) else ''Unknown'')
                               (competition_str_of (sheet ! idx ! 4))]\<rparr>)))"
  using assms by (simp add: process_row_def iloc_def Let_def split: option.splits)


lemma process_row_inv:
  assumes inv: "row_inv leaderboards sheet S (result_df st)"
    and idx: "2 \<le> idx" "idx < length sheet" "idx \<notin> S"
    and cols: "4 < length (sheet ! idx)" "length (sheet ! idx) = ncols sheet"
  shows "\<exists>st'. process_row leaderboards sheet idx st = Inr st' \<and>
           row_inv leaderboards sheet (insert idx S) (result_df st')"
proof -
  let ?T = "result_df st"
  from inv have len: "length ?T = length sheet"
    and rowlen: "\<And>i. i < length sheet \<Longrightarrow> length (?T ! i) = length (sheet ! i)"
    and cells: "\<And>i j. i < length sheet \<Longrightarrow> j < length (sheet ! i) \<Longrightarrow>
        ?T ! i ! j = (if i \<in> S then swept_cell leaderboards sheet i j else sheet ! i ! j)"
    by (simp_all add: row_inv_def)
  have same: "row_inv leaderboards sheet (insert idx S) ?T"
    if "\<And>j. j < length (sheet ! idx) \<Longrightarrow> swept_cell leaderboards sheet idx j = sheet ! idx ! j"
    unfolding row_inv_def using len rowlen cells idx(3) that by auto
  show ?thesis
  proof (cases "isna (sheet ! idx ! 4)")
    case True
    then have "\<And>j. swept_cell leaderboards sheet idx j = sheet ! idx ! j"
      by (simp add: swept_cell_def)
    with True same show ?thesis
      by (simp add: process_row_cases [OF cols(1)])
  next
    case False
    show ?thesis
    proof (cases "leaderboards (competition_str_of (sheet ! idx ! 4))")
      case None
      then have "\<And>j. swept_cell leaderboards sheet idx j = sheet ! idx ! j"
        by (simp add: swept_cell_def)
      with False None same show ?thesis
        by (simp add: process_row_cases [OF cols(1)])
    next
      case (Some lb)
      define st1 where "st1 = st\<lparr>messages := messages st @
                    [ProcessingRow (idx + 1)
                       (if \<not> isna (sheet ! idx ! 1) then py_str (sheet ! idx ! 1) else ''Unknown'')
                       (competition_str_of (sheet ! idx ! 4))]\<rparr>"
      define st' where
        "st' = process_columns lb (sheet ! idx) idx (ncols sheet) (result_columns sheet) st1"
      have run: "process_row leaderboards sheet idx st = Inr st'"
        using False Some by (simp add: process_row_cases [OF cols(1)] st'_def st1_def)
      have bound: "\<forall>c \<in> set (result_columns sheet). c < ncols sheet"
        using result_columns_bound by blast
      have T1: "result_df st1 = ?T" by (simp add: st1_def)
      note F = process_columns_frame [OF distinct_result_columns bound,
          of lb "sheet ! idx" idx st1, folded st'_def, unfolded T1]
      have Flen: "length (result_df st') = length ?T"
        using F by blast
      have Frow: "length (result_df st' ! i) = length (?T ! i)" if "i < length ?T" for i
        using F that by blast
      have Fcell: "result_df st' ! i ! j =
            (if i = idx \<and> j \<in> set (result_columns sheet)
             then (case percentile_of_cell lb (sheet ! idx ! j) of
                     None \<Rightarrow> ?T ! i ! j
                   | Some p \<Rightarrow> IntCell p)
             else ?T ! i ! j)" if "i < length ?T" "j < length (?T ! i)" for i j
        using F that by blast
      have "row_inv leaderboards sheet (insert idx S) (result_df st')"
        unfolding row_inv_def
      proof (intro conjI allI impI)
        show "length (result_df st') = length sheet"
          using Flen len by simp
      next
        fix i assume i: "i < length sheet"
        then show "length (result_df st' ! i) = length (sheet ! i)"
          using Frow [of i] len rowlen by simp
      next
        fix i j assume i: "i < length sheet" and j: "j < length (sheet ! i)"
        have iT: "i < length ?T" using i len by simp
        have jT: "j < length (?T ! i)" using i j rowlen by simp
        note new = Fcell [OF iT jT]
        show "result_df st' ! i ! j =
            (if i \<in> insert idx S then swept_cell leaderboards sheet i j else sheet ! i ! j)"
        proof (cases "i = idx")
          case True
          have old: "?T ! idx ! j = sheet ! idx ! j"
            using cells [OF idx(2)] j True idx(3) by simp
          show ?thesis
            using new True old idx(1) False Some
            by (auto simp: swept_cell_def result_columns_iff split: option.splits)
        next
          case ne: False
          then show ?thesis
            using new cells [OF i j] by simp
        qed
      qed
      with run show ?thesis by blast
    qed
  qed
qed

lemma process_rows_inv:
  assumes "row_inv leaderboards sheet S (result_df st)"
    and "distinct idxs" "\<forall>idx \<in> set idxs. 2 \<le> idx \<and> idx < length sheet \<and> idx \<notin> S"
    and "rectangular sheet" "4 < ncols sheet"
  shows "\<exists>st'. process_rows leaderboards sheet idxs st = Inr st' \<and>
           row_inv leaderboards sheet (S \<union> set idxs) (result_df st')"
  using assms(1-3)
proof (induction idxs arbitrary: st S)
  case Nil
  then show ?case by simp
next
  case (Cons idx idxs)
  have idx: "2 \<le> idx" "idx < length sheet" "idx \<notin> S"
    using Cons.prems(3) by simp_all
  have cols: "4 < length (sheet ! idx)" "length (sheet ! idx) = ncols sheet"
    using rectangular_row [OF assms(4) idx(2)] assms(5) by simp_all
  from process_row_inv [OF Cons.prems(1) idx cols]
  obtain st1 where st1: "process_row leaderboards sheet idx st = Inr st1"
      "row_inv leaderboards sheet (insert idx S) (result_df st1)"
    by blast
  have rest: "distinct idxs"
      "\<forall>i \<in> set idxs. 2 \<le> i \<and> i < length sheet \<and> i \<notin> insert idx S"
    using Cons.prems(2,3) by auto
  from Cons.IH [OF st1(2) rest]
  obtain st' where "process_rows leaderboards sheet idxs st1 = Inr st'"
      "row_inv leaderboards sheet (insert idx S \<union> set idxs) (result_df st')"
    by blast
  with st1(1) show ?case by simp
qed

lemma sweep_returns_swept:
  assumes "rectangular sheet" "4 < ncols sheet"
  shows "\<exists>st. sweep leaderboards sheet = Inr st \<and> length (result_df st) = length sheet \<and>
           (\<forall>i < length sheet. length (result_df st ! i) = length (sheet ! i) \<and>
              (\<forall>j < length (sheet ! i). result_df st ! i ! j = swept_cell leaderboards sheet i j))"
proof -
  let ?st0 = "\<lparr>result_df = sheet, updates_count = 0, messages = []\<rparr>"
  have inv0: "row_inv leaderboards sheet {} (result_df ?st0)"
    by (simp add: row_inv_def)
  have "\<forall>idx \<in> set [2 ..< length sheet]. 2 \<le> idx \<and> idx < length sheet \<and> idx \<notin> {}"
    by simp
  from process_rows_inv [OF inv0 _ this assms]
  obtain st where st: "sweep leaderboards sheet = Inr st"
      "row_inv leaderboards sheet ({} \<union> set [2 ..< length sheet]) (result_df st)"
    unfolding sweep_def by auto
  have "result_df st ! i ! j = swept_cell leaderboards sheet i j"
    if "i < length sheet" "j < length (sheet ! i)" for i j
  proof (cases "2 \<le> i")
    case True
    with st(2) that show ?thesis by (simp add: row_inv_def)
  next
    case False
    then have "swept_cell leaderboards sheet i j = sheet ! i ! j"
      by (simp add: swept_cell_def)
    with False st(2) that show ?thesis by (simp add: row_inv_def)
  qed
  with st show ?thesis by (auto simp: row_inv_def)
qed

lemma sweep_no_data_rows:
  "length sheet \<le> 2 \<Longrightarrow>
   sweep leaderboards sheet = Inr \<lparr>result_df = sheet, updates_count = 0, messages = []\<rparr>"
  by (simp add: sweep_def)

lemma sweep_returns_swept_general:
  assumes "rectangular sheet" "4 < ncols sheet \<or> length sheet \<le> 2"
  shows "\<exists>st. sweep leaderboards sheet = Inr st \<and> length (result_df st) = length sheet \<and>
           (\<forall>i < length sheet. length (result_df st ! i) = length (sheet ! i) \<and>
              (\<forall>j < length (sheet ! i). result_df st ! i ! j = swept_cell leaderboards sheet i j))"
proof (cases "4 < ncols sheet")
  case True
  with assms(1) show ?thesis by (rule sweep_returns_swept)
next
  case False
  with assms(2) have short: "length sheet \<le> 2" by simp
  then have "\<And>i j. i < length sheet \<Longrightarrow> swept_cell leaderboards sheet i j = sheet ! i ! j"
    by (simp add: swept_cell_def)
  with sweep_no_data_rows [OF short, of leaderboards] show ?thesis by simp
qed

lemma swept_cell_changed:
  assumes "swept_cell leaderboards sheet i j \<noteq> sheet ! i ! j" "j < ncols sheet"
  shows "2 \<le> i \<and> start_col \<le> j \<and> j \<le> 88 \<and>
     (\<exists>lb score percentile.
        leaderboards (competition_str_of (sheet ! i ! 4)) = Some lb \<and>
        parse_score_value (sheet ! i ! j) = Some score \<and>
        calculate_percentile (PyNum score) (df lb) (total_teams lb) = Inr percentile \<and>
        swept_cell leaderboards sheet i j = IntCell percentile)"
proof -
  from assms(1) have c: "2 \<le> i" "start_col \<le> j" "int j \<le> end_col sheet"
    unfolding swept_cell_def by (auto split: if_splits)
  then have j88: "j \<le> 88" by (simp add: end_col_def)
  from assms(1) c obtain lb p where lb: "leaderboards (competition_str_of (sheet ! i ! 4)) = Some lb"
      "percentile_of_cell lb (sheet ! i ! j) = Some p" "swept_cell leaderboards sheet i j = IntCell p"
    unfolding swept_cell_def by (auto split: if_splits option.splits)
  from lb(2) obtain score where "parse_score_value (sheet ! i ! j) = Some score"
      "calculate_percentile (PyNum score) (df lb) (total_teams lb) = Inr p"
    unfolding percentile_of_cell_def by (auto split: option.splits sum.splits)
  with c j88 lb show ?thesis by blast
qed

lemma swept_cell_written:
  assumes "2 \<le> i" "start_col \<le> j" "j \<le> 88" "j < ncols sheet" "\<not> isna (sheet ! i ! 4)"
    and "leaderboards (competition_str_of (sheet ! i ! 4)) = Some lb"
    and "parse_score_value (sheet ! i ! j) = Some score"
    and "calculate_percentile (PyNum score) (df lb) (total_teams lb) = Inr percentile"
  shows "swept_cell leaderboards sheet i j = IntCell percentile"
proof -
  have "int j \<le> end_col sheet" using assms(3,4) by (simp add: end_col_def)
  with assms show ?thesis
    by (simp add: swept_cell_def percentile_of_cell_def)
qed

lemma example_sheet_ok: "rectangular example_sheet \<and> ncols example_sheet = 12 \<and> length example_sheet = 4"
  by (simp add: example_sheet_def rectangular_def ncols_def)

lemma example_half: "parse_score_value (Text ''0.5'') = Some (Fin (1 / 2))"
  by code_simp

lemma example_percentile:
  "calculate_percentile (PyNum (Fin (1 / 2))) [\<lparr>Rank = 1::nat, Score = Fin 1\<rparr>, \<lparr>Rank = 2, Score = Fin 0\<rparr>] 2 = Inr 50"
  by code_simp

text \<open>
  Claim C8. On a sheet of at least five columns (or with no data row) the sweep returns
  a frame of the same dimensions. A cell differs from the input only if it is in a data
  row and a result column (11 to 88), the row's competition has a leaderboard, the score
  parses and the percentile is computed, and then it holds that percentile. So where the
  parsing or the percentile fails, in the two header rows and outside the result
  columns, the output is the input. A cell of a data row and a result column where both
  succeed is overwritten.
\<close>

theorem sweep_frame:
  assumes "rectangular sheet" and "4 < ncols sheet \<or> length sheet \<le> 2"
  shows "\<exists>st. sweep leaderboards sheet = Inr st \<and>
     length (result_df st) = length sheet \<and>
     (\<forall>i < length sheet. length (result_df st ! i) = length (sheet ! i) \<and>
        (\<forall>j < length (sheet ! i).
           (result_df st ! i ! j \<noteq> sheet ! i ! j \<longrightarrow>
              2 \<le> i \<and> start_col \<le> j \<and> j \<le> 88 \<and>
              (\<exists>lb score percentile.
                 leaderboards (competition_str_of (sheet ! i ! 4)) = Some lb \<and>
                 parse_score_value (sheet ! i ! j) = Some score \<and>
                 calculate_percentile (PyNum score) (df lb) (total_teams lb) = Inr percentile \<and>
                 result_df st ! i ! j = IntCell percentile)) \<and>
           (\<forall>lb score percentile.
              2 \<le> i \<and> start_col \<le> j \<and> j \<le> 88 \<and> \<not> isna (sheet ! i ! 4) \<and>
              leaderboards (competition_str_of (sheet ! i ! 4)) = Some lb \<and>
              parse_score_value (sheet ! i ! j) = Some score \<and>
              calculate_percentile (PyNum score) (df lb) (total_teams lb) = Inr percentile \<longrightarrow>
              result_df st ! i ! j = IntCell percentile)))"
proof -
  from sweep_returns_swept_general [OF assms, of leaderboards]
  obtain st where st: "sweep leaderboards sheet = Inr st" "length (result_df st) = length sheet"
      "\<And>i. i < length sheet \<Longrightarrow> length (result_df st ! i) = length (sheet ! i)"
      "\<And>i j. i < length sheet \<Longrightarrow> j < length (sheet ! i) \<Longrightarrow>
         result_df st ! i ! j = swept_cell leaderboards sheet i j"
    by blast
  have "(result_df st ! i ! j \<noteq> sheet ! i ! j \<longrightarrow>
              2 \<le> i \<and> start_col \<le> j \<and> j \<le> 88 \<and>
              (\<exists>lb score percentile.
                 leaderboards (competition_str_of (sheet ! i ! 4)) = Some lb \<and>
                 parse_score_value (sheet ! i ! j) = Some score \<and>
                 calculate_percentile (PyNum score) (df lb) (total_teams lb) = Inr percentile \<and>
                 result_df st ! i ! j = IntCell percentile)) \<and>
           (\<forall>lb score percentile.
              2 \<le> i \<and> start_col \<le> j \<and> j \<le> 88 \<and> \<not> isna (sheet ! i ! 4) \<and>
              leaderboards (competition_str_of (sheet ! i ! 4)) = Some lb \<and>
              parse_score_value (sheet ! i ! j) = Some score \<and>
              calculate_percentile (PyNum score) (df lb) (total_teams lb) = Inr percentile \<longrightarrow>
              result_df st ! i ! j = IntCell percentile)"
    if i: "i < length sheet" and j: "j < length (sheet ! i)" for i j
  proof -
    have jn: "j < ncols sheet"
      using rectangular_row [OF assms(1) i] j by simp
    have eq: "result_df st ! i ! j = swept_cell leaderboards sheet i j"
      using st(4) i j by simp
    show ?thesis
      unfolding eq using swept_cell_changed [OF _ jn, of leaderboards i]
        swept_cell_written [OF _ _ _ jn, of i leaderboards]
      by blast
  qed
  with st(1-3) show ?thesis by blast
qed

theorem sweep_frame_witness:
  "\<exists>st. sweep example_leaderboards example_sheet = Inr st \<and>
        length (result_df st) = 4 \<and> length (result_df st ! 2) = 12 \<and>
        result_df st ! 2 ! 11 = IntCell 50 \<and> result_df st ! 2 ! 10 = Text ''0.7'' \<and>
        result_df st ! 3 ! 11 = Text ''0.5'' \<and> result_df st ! 0 ! 11 = Text ''header''"
proof -
  have r: "rectangular example_sheet" and n: "4 < ncols example_sheet \<or> length example_sheet \<le> 2"
    using example_sheet_ok by simp_all
  from sweep_frame [OF r n, of example_leaderboards]
  obtain st where st: "sweep example_leaderboards example_sheet = Inr st"
      "length (result_df st) = length example_sheet"
      and cells: "\<And>i. i < length example_sheet \<Longrightarrow>
        length (result_df st ! i) = length (example_sheet ! i) \<and>
        (\<forall>j < length (example_sheet ! i).
           (result_df st ! i ! j \<noteq> example_sheet ! i ! j \<longrightarrow>
              2 \<le> i \<and> start_col \<le> j \<and> j \<le> 88 \<and>
              (\<exists>lb score percentile.
                 example_leaderboards (competition_str_of (example_sheet ! i ! 4)) = Some lb \<and>
                 parse_score_value (example_sheet ! i ! j) = Some score \<and>
                 calculate_percentile (PyNum score) (df lb) (total_teams lb) = Inr percentile \<and>
                 result_df st ! i ! j = IntCell percentile)) \<and>
           (\<forall>lb score percentile.
              2 \<le> i \<and> start_col \<le> j \<and> j \<le> 88 \<and> \<not> isna (example_sheet ! i ! 4) \<and>
              example_leaderboards (competition_str_of (example_sheet ! i ! 4)) = Some lb \<and>
              parse_score_value (example_sheet ! i ! j) = Some score \<and>
              calculate_percentile (PyNum score) (df lb) (total_teams lb) = Inr percentile \<longrightarrow>
              result_df st ! i ! j = IntCell percentile))"
    by blast
  have len: "length (result_df st) = 4"
    using st(2) example_sheet_ok by simp
  have row2: "example_sheet ! 2 =
      [IntCell 1, Text ''a'', Missing, Missing, Text ''c'', Missing, Missing, Missing, Missing,
       Missing, Text ''0.7'', Text ''0.5'']"
    by (simp add: example_sheet_def)
  have row3: "example_sheet ! 3 =
      [IntCell 2, Text ''b'', Missing, Missing, Text ''x'', Missing, Missing, Missing, Missing,
       Missing, Text ''0.7'', Text ''0.5'']"
    by (simp add: example_sheet_def numeral_3_eq_3)
  have row0: "example_sheet ! 0 = replicate 12 (Text ''header'')"
    by (simp add: example_sheet_def)
  have l2: "length (result_df st ! 2) = 12"
    using cells [of 2] example_sheet_ok row2 by simp
  have lbc: "example_leaderboards (competition_str_of (example_sheet ! 2 ! 4)) =
      Some \<lparr>df = [\<lparr>Rank = 1, Score = Fin 1\<rparr>, \<lparr>Rank = 2, Score = Fin 0\<rparr>], total_teams = 2\<rparr>"
    by (simp add: row2 example_leaderboards_def)
  have c211: "result_df st ! 2 ! 11 = IntCell 50"
    using cells [of 2, THEN conjunct2, rule_format, of 11, THEN conjunct2, rule_format,
        of "\<lparr>df = [\<lparr>Rank = 1, Score = Fin 1\<rparr>, \<lparr>Rank = 2, Score = Fin 0\<rparr>], total_teams = 2\<rparr>"
           "Fin (1 / 2)" 50]
      example_sheet_ok lbc example_half example_percentile
    by (simp add: row2 start_col_def)
  have c210: "result_df st ! 2 ! 10 = Text ''0.7''"
    using cells [of 2, THEN conjunct2, rule_format, of 10, THEN conjunct1] example_sheet_ok
    by (auto simp: row2 start_col_def)
  have c311: "result_df st ! 3 ! 11 = Text ''0.5''"
    using cells [of 3, THEN conjunct2, rule_format, of 11, THEN conjunct1] example_sheet_ok
    by (auto simp: row3 example_leaderboards_def)
  have c011: "result_df st ! 0 ! 11 = Text ''header''"
    using cells [of 0, THEN conjunct2, rule_format, of 11, THEN conjunct1] example_sheet_ok
    by (auto simp: row0)
  from st(1) len l2 c211 c210 c311 c011 show ?thesis by blast
qed

text \<open>
  With a data row and fewer than five columns the read of the competition column raises
  and the run ends without an output.
\<close>

lemma sweep_index_error:
  assumes "2 < length sheet" "length (sheet ! 2) \<le> 4"
  shows "sweep leaderboards sheet = Inl IndexError"
proof -
  have "[2 ..< length sheet] = 2 # [3 ..< length sheet]"
    using assms(1) by (simp add: upt_rec)
  moreover have "process_row leaderboards sheet 2 st = Inl IndexError" for st
    using assms(2) by (simp add: process_row_def iloc_def)
  ultimately show ?thesis by (simp add: sweep_def)
qed

section \<open>Rows without a leaderboard\<close>

lemma count_snoc: "count_list (xs @ [x]) y = count_list xs y + (if x = y then 1 else 0)"
  by (induction xs) auto

lemma process_cell_notfound:
  "count_list (messages (process_cell lb row idx c st)) (WarnNotFound k) =
     count_list (messages st) (WarnNotFound k)"
  by (simp add: process_cell_def Let_def count_snoc split: option.splits sum.splits)

lemma process_columns_notfound:
  "count_list (messages (process_columns lb row idx n cols st)) (WarnNotFound k) =
     count_list (messages st) (WarnNotFound k)"
  by (induction cols arbitrary: st) (simp_all add: process_cell_notfound)


lemma process_row_notfound:
  assumes "4 < length (sheet ! idx)" "process_row leaderboards sheet idx st = Inr st'"
  shows "count_list (messages st') (WarnNotFound k) =
           count_list (messages st) (WarnNotFound k) +
           (if no_leaderboard leaderboards sheet k idx then 1 else 0)"
proof (cases "isna (sheet ! idx ! 4)")
  case True
  with assms show ?thesis
    by (simp add: process_row_cases no_leaderboard_def)
next
  case False
  show ?thesis
  proof (cases "leaderboards (competition_str_of (sheet ! idx ! 4))")
    case None
    with False assms show ?thesis
      by (auto simp: process_row_cases no_leaderboard_def count_snoc)
  next
    case (Some lb)
    with False assms show ?thesis
      by (auto simp: process_row_cases no_leaderboard_def process_columns_notfound count_snoc)
  qed
qed

lemma process_rows_notfound:
  assumes "\<forall>idx \<in> set idxs. 4 < length (sheet ! idx)"
    and "process_rows leaderboards sheet idxs st = Inr st'"
  shows "count_list (messages st') (WarnNotFound k) =
           count_list (messages st) (WarnNotFound k) +
           length (filter (no_leaderboard leaderboards sheet k) idxs)"
  using assms
proof (induction idxs arbitrary: st)
  case Nil
  then show ?case by simp
next
  case (Cons idx idxs)
  from Cons.prems(2) obtain st1 where st1: "process_row leaderboards sheet idx st = Inr st1"
      "process_rows leaderboards sheet idxs st1 = Inr st'"
    by (auto split: sum.splits)
  have "4 < length (sheet ! idx)" "\<forall>i \<in> set idxs. 4 < length (sheet ! i)"
    using Cons.prems(1) by simp_all
  with Cons.IH [OF _ st1(2)] process_row_notfound [OF _ st1(1), of k]
  show ?case by simp
qed

text \<open>
  Claim C9 says that a run emits exactly one warning for a missing competition. The
  warning is printed once for every row: two rows that name the same missing
  competition \<^verbatim>\<open>x\<close> give two warnings for it.
\<close>

theorem repeated_missing_competition_warns_twice:
  "map_sum id messages
     (sweep (Map.empty :: string \<rightharpoonup> nat leaderboard)
        [[Text ''h'', Text ''h'', Text ''h'', Text ''h'', Text ''competition''],
         [Text ''h'', Text ''h'', Text ''h'', Text ''h'', Text ''h''],
         [IntCell 1, Text ''a'', Missing, Missing, Text ''x''],
         [IntCell 2, Text ''b'', Missing, Missing, Text ''x'']]) =
   Inr [WarnNotFound ''x'', WarnNotFound ''x'']"
  by (simp add: sweep_def process_row_def iloc_def upt_rec)

text \<open>
  Claim C9 as amended. A data row whose competition has no loaded leaderboard is left
  unchanged; its processing returns normally, having printed one warning and nothing
  else, and the loop goes on with the next row. The warning is printed once per such
  row, not once per column: the number of warnings of a run for a missing competition is
  the number of data rows that name it.
\<close>

theorem missing_leaderboard_rows:
  assumes "rectangular sheet" and "4 < ncols sheet"
  shows "\<exists>st. sweep leaderboards sheet = Inr st \<and>
     (\<forall>i. 2 \<le> i \<and> i < length sheet \<and> \<not> isna (sheet ! i ! 4) \<and>
          leaderboards (competition_str_of (sheet ! i ! 4)) = None \<longrightarrow>
        result_df st ! i = sheet ! i \<and>
        (\<forall>st0. process_row leaderboards sheet i st0 =
           Inr (st0\<lparr>messages := messages st0 @ [WarnNotFound (competition_str_of (sheet ! i ! 4))]\<rparr>))) \<and>
     (\<forall>k. leaderboards k = None \<longrightarrow>
        count_list (messages st) (WarnNotFound k) =
          length (filter (\<lambda>i. \<not> isna (sheet ! i ! 4) \<and> competition_str_of (sheet ! i ! 4) = k)
                    [2 ..< length sheet]))"
proof -
  from sweep_returns_swept [OF assms, of leaderboards]
  obtain st where st: "sweep leaderboards sheet = Inr st" "length (result_df st) = length sheet"
      "\<And>i. i < length sheet \<Longrightarrow> length (result_df st ! i) = length (sheet ! i)"
      "\<And>i j. i < length sheet \<Longrightarrow> j < length (sheet ! i) \<Longrightarrow>
         result_df st ! i ! j = swept_cell leaderboards sheet i j"
    by blast
  have wide: "4 < length (sheet ! i)" if "i < length sheet" for i
    using rectangular_row [OF assms(1) that] assms(2) by simp
  have rows: "result_df st ! i = sheet ! i \<and>
        (\<forall>st0. process_row leaderboards sheet i st0 =
           Inr (st0\<lparr>messages := messages st0 @ [WarnNotFound (competition_str_of (sheet ! i ! 4))]\<rparr>))"
    if h: "2 \<le> i \<and> i < length sheet \<and> \<not> isna (sheet ! i ! 4) \<and>
          leaderboards (competition_str_of (sheet ! i ! 4)) = None" for i
  proof
    from h have i: "i < length sheet" by simp
    have "swept_cell leaderboards sheet i j = sheet ! i ! j" for j
      using h by (simp add: swept_cell_def)
    then have "\<forall>j < length (sheet ! i). result_df st ! i ! j = sheet ! i ! j"
      using st(4) [OF i] by simp
    with st(3) [OF i] show "result_df st ! i = sheet ! i"
      by (simp add: list_eq_iff_nth_eq)
    show "\<forall>st0. process_row leaderboards sheet i st0 =
           Inr (st0\<lparr>messages := messages st0 @ [WarnNotFound (competition_str_of (sheet ! i ! 4))]\<rparr>)"
      using h by (simp add: process_row_cases [OF wide [OF i]])
  qed
  have count: "count_list (messages st) (WarnNotFound k) =
          length (filter (\<lambda>i. \<not> isna (sheet ! i ! 4) \<and> competition_str_of (sheet ! i ! 4) = k)
                    [2 ..< length sheet])"
    if k: "leaderboards k = None" for k
  proof -
    have "\<forall>idx \<in> set [2 ..< length sheet]. 4 < length (sheet ! idx)"
      using wide by simp
    from process_rows_notfound [OF this st(1) [unfolded sweep_def], of k]
    have "count_list (messages st) (WarnNotFound k) =
        length (filter (no_leaderboard leaderboards sheet k) [2 ..< length sheet])"
      by simp
    moreover have "no_leaderboard leaderboards sheet k =
        (\<lambda>i. \<not> isna (sheet ! i ! 4) \<and> competition_str_of (sheet ! i ! 4) = k)"
      using k by (simp add: no_leaderboard_def fun_eq_iff)
    ultimately show ?thesis by simp
  qed
  from st(1) rows count show ?thesis by blast
qed

theorem missing_leaderboard_rows_witness:
  "\<exists>st. sweep example_leaderboards example_sheet = Inr st \<and>
        result_df st ! 3 = example_sheet ! 3 \<and>
        count_list (messages st) (WarnNotFound ''x'') = 1"
proof -
  have r: "rectangular example_sheet" and n: "4 < ncols example_sheet"
    using example_sheet_ok by simp_all
  have row2: "example_sheet ! 2 ! 4 = Text ''c''" and row3: "example_sheet ! 3 ! 4 = Text ''x''"
    by (simp_all add: example_sheet_def numeral_3_eq_3)
  have none: "example_leaderboards ''x'' = None"
    by (simp add: example_leaderboards_def)
  have h3: "2 \<le> (3::nat) \<and> 3 < length example_sheet \<and> \<not> isna (example_sheet ! 3 ! 4) \<and>
      example_leaderboards (competition_str_of (example_sheet ! 3 ! 4)) = None"
    using example_sheet_ok none by (simp add: row3)
  have rng: "[2 ..< length example_sheet] = [2, 3]"
    using example_sheet_ok by (simp add: upt_rec)
  have cnt: "length (filter (\<lambda>i. \<not> isna (example_sheet ! i ! 4) \<and>
      competition_str_of (example_sheet ! i ! 4) = ''x'') [2 ..< length example_sheet]) = 1"
    unfolding rng by (simp add: row2 row3)
  from missing_leaderboard_rows [OF r n, of example_leaderboards]
  obtain st where st: "sweep example_leaderboards example_sheet = Inr st"
    and a: "\<And>i. 2 \<le> i \<and> i < length example_sheet \<and> \<not> isna (example_sheet ! i ! 4) \<and>
          example_leaderboards (competition_str_of (example_sheet ! i ! 4)) = None \<Longrightarrow>
        result_df st ! i = example_sheet ! i"
    and b: "\<And>k. example_leaderboards k = None \<Longrightarrow>
        count_list (messages st) (WarnNotFound k) =
          length (filter (\<lambda>i. \<not> isna (example_sheet ! i ! 4) \<and>
                    competition_str_of (example_sheet ! i ! 4) = k) [2 ..< length example_sheet])"
    by blast
  from st a [OF h3] b [OF none] cnt show ?thesis by simp
qed

end
